theory Spec2Isabelle
  imports
    Complex_Main
    "HOL-Library.Multiset"
    "HOL-Library.List_Lexorder"
    "HOL-Library.Char_ord"
    "HOL-Library.AList"
begin

chapter \<open>A sharded, replicated key-value store: embedding and verification\<close>

text \<open>
  The development follows the Python sources: the per-replica shard store
  (\<^verbatim>\<open>apps/shard/app/storage.py\<close>), the shard's HTTP handlers
  (\<^verbatim>\<open>apps/shard/app/main.py\<close>), its replication client
  (\<^verbatim>\<open>apps/shard/app/replication.py\<close>), the consistent-hash ring
  (\<^verbatim>\<open>apps/coordinator/app/ring.py\<close>), the table and replica registries
  (\<^verbatim>\<open>apps/coordinator/app/storage.py\<close>) and the routing tier
  (\<^verbatim>\<open>apps/coordinator/app/main.py\<close>).  Python integers are \<^typ>\<open>int\<close>, strings are
  \<^typ>\<open>string\<close> compared bytewise (the order of \<^verbatim>\<open>str\<close> on code points), dictionaries
  are maps, or association lists where the source iterates them.
\<close>

section \<open>Definitions\<close>

subsection \<open>Values\<close>

text \<open>Record values are JSON objects (\<^verbatim>\<open>Dict[str, Any]\<close>); the code never inspects them.\<close>

datatype json =
    JNull
  | JBool bool
  | JInt int
  | JStr string
  | JArr "json list"
  | JObj "(string \<times> json) list"

type_synonym pydict = "(string \<times> json) list"

subsection \<open>Shard store (\<^verbatim>\<open>InMemoryShardStore\<close>)\<close>

text \<open>A slot is the dictionary \<^verbatim>\<open>{"value", "version", "origin", "deleted"}\<close>.\<close>

record slot =
  slot_value :: pydict
  slot_version :: int
  slot_origin :: string
  slot_deleted :: bool

text \<open>\<^verbatim>\<open>_tables: Dict[str, Dict[Tuple[str, str], dict]]\<close>.\<close>

type_synonym shard_table = "string \<times> string \<rightharpoonup> slot"
type_synonym shard_store = "string \<rightharpoonup> shard_table"

text \<open>Python's \<^verbatim>\<open>(version, origin) > (cur_version, cur_origin)\<close> on tuples.\<close>

definition tuple_gt :: "int \<times> string \<Rightarrow> int \<times> string \<Rightarrow> bool" where
  "tuple_gt a b = (fst b < fst a \<or> (fst a = fst b \<and> snd b < snd a))"

text \<open>\<^verbatim>\<open>self._tables.setdefault(table, {})\<close>: the table found or created.\<close>

definition setdefault_table :: "shard_store \<Rightarrow> string \<Rightarrow> shard_table" where
  "setdefault_table st table = (case st table of None \<Rightarrow> Map.empty | Some t \<Rightarrow> t)"

definition store_put ::
  "shard_store \<Rightarrow> string \<Rightarrow> string \<Rightarrow> string \<Rightarrow> pydict \<Rightarrow> int \<Rightarrow> string \<Rightarrow> shard_store" where
  "store_put st table pk sk v ver org =
     (let t = setdefault_table st table;
          cur = t (pk, sk)
      in if (case cur of None \<Rightarrow> True
             | Some c \<Rightarrow> tuple_gt (ver, org) (slot_version c, slot_origin c))
         then st(table \<mapsto> t((pk, sk) \<mapsto>
                \<lparr>slot_value = v, slot_version = ver, slot_origin = org, slot_deleted = False\<rparr>))
         else st(table \<mapsto> t))"

text \<open>\<^verbatim>\<open>delete\<close> returns the previous live value (or \<^verbatim>\<open>None\<close>) and the updated store.\<close>

definition prev_val :: "slot option \<Rightarrow> pydict option" where
  "prev_val cur = (case cur of None \<Rightarrow> None
                   | Some c \<Rightarrow> if slot_deleted c then None else Some (slot_value c))"

definition store_delete ::
  "shard_store \<Rightarrow> string \<Rightarrow> string \<Rightarrow> string \<Rightarrow> int \<Rightarrow> string \<Rightarrow> pydict option \<times> shard_store" where
  "store_delete st table pk sk ver org =
     (let t = setdefault_table st table;
          cur = t (pk, sk)
      in if (case cur of None \<Rightarrow> True
             | Some c \<Rightarrow> tuple_gt (ver, org) (slot_version c, slot_origin c))
         then (prev_val cur,
               st(table \<mapsto> t((pk, sk) \<mapsto>
                 \<lparr>slot_value = [], slot_version = ver, slot_origin = org, slot_deleted = True\<rparr>)))
         else (prev_val cur, st(table \<mapsto> t)))"

text \<open>\<^verbatim>\<open>self._tables.get(table, {}).get((pk, sk))\<close>.\<close>

definition store_slot :: "shard_store \<Rightarrow> string \<Rightarrow> string \<Rightarrow> string \<Rightarrow> slot option" where
  "store_slot st table pk sk = (case st table of None \<Rightarrow> None | Some t \<Rightarrow> t (pk, sk))"

definition store_get :: "shard_store \<Rightarrow> string \<Rightarrow> string \<Rightarrow> string \<Rightarrow> pydict option" where
  "store_get st table pk sk =
     (case store_slot st table pk sk of None \<Rightarrow> None
      | Some c \<Rightarrow> if slot_deleted c then None else Some (slot_value c))"


definition store_exists :: "shard_store \<Rightarrow> string \<Rightarrow> string \<Rightarrow> string \<Rightarrow> bool" where
  "store_exists st table pk sk =
     (case store_slot st table pk sk of None \<Rightarrow> False | Some c \<Rightarrow> \<not> slot_deleted c)"

subsection \<open>Streams of store operations\<close>

text \<open>
  A PUT or DEL event as the store receives it: the arguments of one call of
  \<^verbatim>\<open>put(table, pk, sk, value, version, origin)\<close> or
  \<^verbatim>\<open>delete(table, pk, sk, version, origin)\<close>.
\<close>

datatype store_event =
    PUT string string string pydict int string
  | DEL string string string int string

fun apply_store_event :: "shard_store \<Rightarrow> store_event \<Rightarrow> shard_store" where
  "apply_store_event st (PUT table pk sk v ver org) = store_put st table pk sk v ver org"
| "apply_store_event st (DEL table pk sk ver org) = snd (store_delete st table pk sk ver org)"

definition apply_events :: "store_event list \<Rightarrow> shard_store \<Rightarrow> shard_store" where
  "apply_events es st = foldl apply_store_event st es"

fun ev_table :: "store_event \<Rightarrow> string" where
  "ev_table (PUT table pk sk v ver org) = table"
| "ev_table (DEL table pk sk ver org) = table"

fun ev_key :: "store_event \<Rightarrow> string \<times> string \<times> string" where
  "ev_key (PUT table pk sk v ver org) = (table, pk, sk)"
| "ev_key (DEL table pk sk ver org) = (table, pk, sk)"

fun ev_vo :: "store_event \<Rightarrow> int \<times> string" where
  "ev_vo (PUT table pk sk v ver org) = (ver, org)"
| "ev_vo (DEL table pk sk ver org) = (ver, org)"

text \<open>The slot an event writes when it wins.\<close>

fun ev_slot :: "store_event \<Rightarrow> slot" where
  "ev_slot (PUT table pk sk v ver org) =
     \<lparr>slot_value = v, slot_version = ver, slot_origin = org, slot_deleted = False\<rparr>"
| "ev_slot (DEL table pk sk ver org) =
     \<lparr>slot_value = [], slot_version = ver, slot_origin = org, slot_deleted = True\<rparr>"

definition slot_at :: "shard_store \<Rightarrow> string \<times> string \<times> string \<Rightarrow> slot option" where
  "slot_at st k = (case k of (table, pk, sk) \<Rightarrow> store_slot st table pk sk)"

text \<open>Lexicographic \<open>\<le>\<close> on \<open>(version, origin)\<close>: the negation of \<^const>\<open>tuple_gt\<close>.\<close>

definition tuple_le :: "int \<times> string \<Rightarrow> int \<times> string \<Rightarrow> bool" where
  "tuple_le a b = (fst a < fst b \<or> (fst a = fst b \<and> snd a \<le> snd b))"

text \<open>
  Two events of a stream tie when they address the same key with the same
  \<open>(version, origin)\<close>; the stream is tie-free when tying events write the same slot.
\<close>

definition ties_agree :: "store_event list \<Rightarrow> bool" where
  "ties_agree es =
     (\<forall>e \<in> set es. \<forall>e' \<in> set es.
        ev_key e = ev_key e' \<and> ev_vo e = ev_vo e' \<longrightarrow> ev_slot e = ev_slot e')"

text \<open>An event wins when the slot is absent or its pair is strictly greater.\<close>

definition wins :: "shard_store \<Rightarrow> store_event \<Rightarrow> bool" where
  "wins st e = (case slot_at st (ev_key e) of None \<Rightarrow> True
                | Some c \<Rightarrow> tuple_gt (ev_vo e) (slot_version c, slot_origin c))"

text \<open>
  The invariant of a store reached from the empty one by the events \<open>es\<close>: a table exists
  iff some event addressed it, and every slot was written by a maximal event of its key.
\<close>

definition slot_ok :: "store_event list \<Rightarrow> string \<times> string \<times> string \<Rightarrow> slot option \<Rightarrow> bool" where
  "slot_ok es k cur =
     (case cur of
        None \<Rightarrow> \<forall>e \<in> set es. ev_key e \<noteq> k
      | Some sl \<Rightarrow> \<exists>e \<in> set es. ev_key e = k \<and> ev_slot e = sl \<and>
                    (\<forall>e' \<in> set es. ev_key e' = k \<longrightarrow> tuple_le (ev_vo e') (ev_vo e)))"

definition lww_inv :: "store_event list \<Rightarrow> shard_store \<Rightarrow> bool" where
  "lww_inv es st \<longleftrightarrow>
     (\<forall>t. st t = None \<longleftrightarrow> (\<forall>e \<in> set es. ev_table e \<noteq> t)) \<and>
     (\<forall>k. slot_ok es k (slot_at st k))"

subsection \<open>Shard node: replication bus client and handlers\<close>

text \<open>
  The event published to the replication bus is the dictionary
  \<^verbatim>\<open>{"op", "table_name", "pk", "sk", "value", "version", "origin"}\<close>; a DEL event has no
  value.  It is a \<^typ>\<open>store_event\<close>.

  \<^verbatim>\<open>Replicator.publish\<close> puts the event on the queue of the publisher thread
  (\<^verbatim>\<open>_pub_q\<close>) and then blocks on the completion signal of that thread, for at most the
  publish timeout.  What has happened when the call returns is the environment's:
  the publisher thread has taken the event and the broker has confirmed it (\<open>Confirmed\<close>);
  the publisher thread has taken the event, every retry failed, and the last exception is in
  the result box, so the event is dropped (\<open>Failed\<close>); or the signal did not arrive within
  the publish timeout (\<open>TimedOut\<close>): \<^verbatim>\<open>TimeoutError\<close> is raised and the event stays with
  the publisher thread, which goes on with it.

  The state of a replica is its store, the events the broker has confirmed on the
  replication queue (\<open>bus\<close>), and the events that are still with the publisher thread after
  their caller has timed out (\<open>pub_q\<close>).  The publisher thread serves its queue in order: a
  call that returns \<open>Confirmed\<close> or \<open>Failed\<close> does so after the events queued before it
  have been served, which are steps of their own (\<open>publisher_step\<close> below).
\<close>

datatype pub_outcome = Confirmed | Failed | TimedOut

datatype py_exc = TimeoutError | BrokerError

record shard_state =
  store :: shard_store
  bus :: "store_event list"
  pub_q :: "store_event list"

definition publish :: "pub_outcome \<Rightarrow> store_event \<Rightarrow> shard_state \<Rightarrow> py_exc option \<times> shard_state" where
  "publish outcome ev st =
     (case outcome of
        TimedOut \<Rightarrow> (Some TimeoutError, st\<lparr>pub_q := pub_q st @ [ev]\<rparr>)
      | Failed \<Rightarrow> (Some BrokerError, st)
      | Confirmed \<Rightarrow> (None, st\<lparr>bus := bus st @ [ev]\<rparr>))"

text \<open>\<^verbatim>\<open>HTTPException(status_code=...)\<close>; the detail text is not modelled.\<close>

datatype http_exc = HTTPException (status_code: nat)

definition publish_or_503 ::
  "pub_outcome \<Rightarrow> store_event \<Rightarrow> shard_state \<Rightarrow> http_exc option \<times> shard_state" where
  "publish_or_503 outcome ev st =
     (case publish outcome ev st of
        (Some e, st') \<Rightarrow> (Some (HTTPException 503), st')
      | (None, st') \<Rightarrow> (None, st'))"

datatype role = Auto | Leader | Follower


record RecordResponse =
  rr_table_name :: string
  rr_pk :: string
  rr_sk :: string
  rr_value :: "pydict option"
  rr_version :: "int option"
  rr_origin :: "string option"

text \<open>
  The outcome of an HTTP request for a record: the request raised a
  \<^verbatim>\<open>RequestException\<close>, or a response with a status code arrived, whose body is a record
  response or is not JSON.
\<close>

datatype http_reply = RequestException | Reply nat "RecordResponse option"

text \<open>
  The context of one request on a shard replica: the module globals read by the handler
  (\<^verbatim>\<open>get_role()\<close>, \<^verbatim>\<open>get_leader_url()\<close>, \<^verbatim>\<open>PROXY_WRITES\<close>, \<^verbatim>\<open>ORIGIN\<close>), the
  clock reading \<^verbatim>\<open>time.time_ns()\<close> and the answers of the bus and of the leader.
\<close>

record shard_ctx =
  get_role :: role
  get_leader_url :: "string option"
  PROXY_WRITES :: bool
  ORIGIN :: string
  time_ns :: int
  publish_outcome :: pub_outcome
  leader_reply :: http_reply

text \<open>\<^verbatim>\<open>s.rstrip("/")\<close>.\<close>

definition rstrip_slash :: "string \<Rightarrow> string" where
  "rstrip_slash s = rev (dropWhile (\<lambda>c. c = CHR ''/'') (rev s))"

definition leader_or_503 :: "shard_ctx \<Rightarrow> http_exc + string" where
  "leader_or_503 ctx =
     (case get_leader_url ctx of
        None \<Rightarrow> Inl (HTTPException 503)
      | Some leader \<Rightarrow> if leader = [] then Inl (HTTPException 503) else Inr (rstrip_slash leader))"

definition proxy_to_leader :: "shard_ctx \<Rightarrow> http_exc + RecordResponse" where
  "proxy_to_leader ctx =
     (case leader_or_503 ctx of
        Inl e \<Rightarrow> Inl e
      | Inr leader \<Rightarrow>
          (case leader_reply ctx of
             RequestException \<Rightarrow> Inl (HTTPException 502)
           | Reply code body \<Rightarrow>
               if 400 \<le> code then Inl (HTTPException code)
               else (case body of None \<Rightarrow> Inl (HTTPException 502) | Some d \<Rightarrow> Inr d)))"

text \<open>The branch of \<^verbatim>\<open>create\<close> and \<^verbatim>\<open>delete\<close> taken when the replica is not the leader.\<close>

definition not_leader_write :: "shard_ctx \<Rightarrow> http_exc + RecordResponse" where
  "not_leader_write ctx =
     (if \<not> PROXY_WRITES ctx
      then (case leader_or_503 ctx of Inl e \<Rightarrow> Inl e | Inr leader \<Rightarrow> Inl (HTTPException 307))
      else proxy_to_leader ctx)"



text \<open>\<^verbatim>\<open>DELETE /records\<close> on a shard replica.\<close>

definition delete ::
  "shard_ctx \<Rightarrow> string \<Rightarrow> string \<Rightarrow> string \<Rightarrow> shard_state \<Rightarrow> (http_exc + RecordResponse) \<times> shard_state" where
  "delete ctx table_name pk sk st =
     (if get_role ctx \<noteq> Leader then (not_leader_write ctx, st)
      else
        let version = time_ns ctx;
            ev = DEL table_name pk sk version (ORIGIN ctx)
        in case publish_or_503 (publish_outcome ctx) ev st of
             (Some e, st') \<Rightarrow> (Inl e, st')
           | (None, st') \<Rightarrow>
               (case store_delete (store st') table_name pk sk version (ORIGIN ctx) of
                  (prev, store') \<Rightarrow>
                    (case prev of
                       None \<Rightarrow> (Inl (HTTPException 404), st'\<lparr>store := store'\<rparr>)
                     | Some v \<Rightarrow>
                         (Inr \<lparr>rr_table_name = table_name, rr_pk = pk, rr_sk = sk,
                               rr_value = Some v, rr_version = Some version, rr_origin = None\<rparr>,
                          st'\<lparr>store := store'\<rparr>))))"

text \<open>\<^verbatim>\<open>GET /exists\<close> on a shard replica.\<close>

definition shard_exists :: "string \<Rightarrow> string \<Rightarrow> string \<Rightarrow> shard_state \<Rightarrow> bool" where
  "shard_exists table_name pk sk st = store_exists (store st) table_name pk sk"

subsection \<open>Shard node: publisher thread and consumer thread\<close>












subsection \<open>Consistent-hash ring (\<^verbatim>\<open>ConsistentHashRing\<close>)\<close>

text \<open>
  \<^verbatim>\<open>_hash_to_int\<close> is SHA-256 read as an unsigned integer.  The ring only compares its
  results, so every operation takes the hash function as its parameter \<open>H\<close>.
\<close>

datatype RingNode = RingNode (url: string)

text \<open>
  The dictionary \<^verbatim>\<open>_ring\<close> is an association list in insertion order (the constructor's
  argument, the number of virtual nodes per shard, is \<open>replicas\<close>).
\<close>

record ConsistentHashRing =
  replicas :: nat
  ring_tab :: "(int \<times> RingNode) list"
  sorted_keys :: "int list"

datatype ring_error = ValueError | KeyError

definition ring_init :: "int \<Rightarrow> ring_error + ConsistentHashRing" where
  "ring_init n =
     (if n \<le> 0 then Inl ValueError
      else Inr \<lparr>replicas = nat n, ring_tab = [], sorted_keys = []\<rparr>)"

text \<open>The decimal numeral of \<^verbatim>\<open>f"{i}"\<close> and the label \<^verbatim>\<open>f"{node.url}#{i}"\<close>.\<close>

function str_nat :: "nat \<Rightarrow> string" where
  "str_nat n =
     (if n < 10 then [''0123456789'' ! n]
      else str_nat (n div 10) @ [''0123456789'' ! (n mod 10)])"
  by pat_completeness auto
termination
  by (relation "measure id") auto

definition vnode_label :: "string \<Rightarrow> nat \<Rightarrow> string" where
  "vnode_label node_url i = node_url @ ''#'' @ str_nat i"

text \<open>
  \<^verbatim>\<open>bisect.bisect\<close> (that is \<^verbatim>\<open>bisect_right\<close>) and \<^verbatim>\<open>bisect.bisect_left\<close> of the
  standard library: binary search between \<open>lo\<close> and \<open>hi\<close>.
\<close>

function bisect_from :: "int list \<Rightarrow> int \<Rightarrow> nat \<Rightarrow> nat \<Rightarrow> nat" where
  "bisect_from a x lo hi =
     (if lo < hi
      then (if x < a ! ((lo + hi) div 2)
            then bisect_from a x lo ((lo + hi) div 2)
            else bisect_from a x ((lo + hi) div 2 + 1) hi)
      else lo)"
  by pat_completeness auto
termination
  by (relation "measure (\<lambda>(a, x, lo, hi). hi - lo)") auto

definition bisect :: "int list \<Rightarrow> int \<Rightarrow> nat" where
  "bisect a x = bisect_from a x 0 (length a)"

function bisect_left_from :: "int list \<Rightarrow> int \<Rightarrow> nat \<Rightarrow> nat \<Rightarrow> nat" where
  "bisect_left_from a x lo hi =
     (if lo < hi
      then (if a ! ((lo + hi) div 2) < x
            then bisect_left_from a x ((lo + hi) div 2 + 1) hi
            else bisect_left_from a x lo ((lo + hi) div 2))
      else lo)"
  by pat_completeness auto
termination
  by (relation "measure (\<lambda>(a, x, lo, hi). hi - lo)") auto

definition bisect_left :: "int list \<Rightarrow> int \<Rightarrow> nat" where
  "bisect_left a x = bisect_left_from a x 0 (length a)"

declare bisect_from.simps [simp del] bisect_left_from.simps [simp del]
declare str_nat.simps [simp del]

text \<open>\<^verbatim>\<open>nodes()\<close>: the distinct shards, sorted by url.\<close>

definition nodes :: "ConsistentHashRing \<Rightarrow> RingNode list" where
  "nodes r = map RingNode (sort (remdups (map (url \<circ> snd) (ring_tab r))))"

text \<open>
  The second loop of \<^verbatim>\<open>remove\<close>: \<^verbatim>\<open>del self._ring[k]\<close> raises \<^verbatim>\<open>KeyError\<close> on a
  missing key; the key is popped from \<^verbatim>\<open>_sorted_keys\<close> where bisection finds it.
\<close>

fun remove_keys :: "int list \<Rightarrow> ConsistentHashRing \<Rightarrow> ring_error + ConsistentHashRing" where
  "remove_keys [] r = Inr r"
| "remove_keys (k # ks) r =
     (if map_of (ring_tab r) k = None then Inl KeyError
      else
        let idx = bisect_left (sorted_keys r) k
        in remove_keys ks
             (r\<lparr>ring_tab := AList.delete k (ring_tab r),
                sorted_keys :=
                  (if idx < length (sorted_keys r) \<and> sorted_keys r ! idx = k
                   then take idx (sorted_keys r) @ drop (Suc idx) (sorted_keys r)
                   else sorted_keys r)\<rparr>))"

definition ring_remove ::
  "(string \<Rightarrow> int) \<Rightarrow> ConsistentHashRing \<Rightarrow> string \<Rightarrow> ring_error + ConsistentHashRing" where
  "ring_remove H r node_url =
     remove_keys
       (filter (\<lambda>k. map_of (ring_tab r) k \<noteq> None)
          (map (\<lambda>i. H (vnode_label node_url i)) [0..<replicas r]))
       r"

text \<open>One round of the loop of \<^verbatim>\<open>add\<close>.\<close>

definition add_vnode :: "(string \<Rightarrow> int) \<Rightarrow> RingNode \<Rightarrow> nat \<Rightarrow> ConsistentHashRing \<Rightarrow> ConsistentHashRing" where
  "add_vnode H node i r =
     r\<lparr>ring_tab := AList.update (H (vnode_label (url node) i)) node (ring_tab r),
       sorted_keys := sorted_keys r @ [H (vnode_label (url node) i)]\<rparr>"

definition ring_add ::
  "(string \<Rightarrow> int) \<Rightarrow> ConsistentHashRing \<Rightarrow> RingNode \<Rightarrow> ring_error + ConsistentHashRing" where
  "ring_add H r node =
     (case (if list_ex (\<lambda>n. url n = url node) (map snd (ring_tab r))
            then ring_remove H r (url node) else Inr r) of
        Inl e \<Rightarrow> Inl e
      | Inr r1 \<Rightarrow>
          let r2 = fold (add_vnode H node) [0..<replicas r1] r1
          in Inr (r2\<lparr>sorted_keys := sort (sorted_keys r2)\<rparr>))"

text \<open>\<^verbatim>\<open>self._ring[...]\<close> raises \<^verbatim>\<open>KeyError\<close> when the position has no entry.\<close>

definition ring_get ::
  "(string \<Rightarrow> int) \<Rightarrow> ConsistentHashRing \<Rightarrow> string \<Rightarrow> ring_error + RingNode option" where
  "ring_get H r key =
     (if sorted_keys r = [] then Inr None
      else
        let h = H key;
            idx = bisect (sorted_keys r) h mod length (sorted_keys r)
        in case map_of (ring_tab r) (sorted_keys r ! idx) of
             None \<Rightarrow> Inl KeyError
           | Some n \<Rightarrow> Inr (Some n))"

text \<open>
  The specification's reading of \<^verbatim>\<open>get\<close>, for comparison: the shard at the smallest
  virtual-node position \<open>\<ge> H key\<close>, wrapping to the smallest position of all.
\<close>

definition ring_get_spec :: "(string \<Rightarrow> int) \<Rightarrow> ConsistentHashRing \<Rightarrow> string \<Rightarrow> RingNode option" where
  "ring_get_spec H r key =
     (if ring_tab r = [] then None
      else
        let ps = map fst (ring_tab r);
            above = filter (\<lambda>p. H key \<le> p) ps
        in map_of (ring_tab r) (if above = [] then Min (set ps) else Min (set above)))"

text \<open>
  The ring's representation invariant: \<^verbatim>\<open>_sorted_keys\<close> is sorted, without repetition,
  and holds exactly the keys of \<^verbatim>\<open>_ring\<close>.
\<close>

definition ring_inv :: "ConsistentHashRing \<Rightarrow> bool" where
  "ring_inv r \<longleftrightarrow>
     sorted (sorted_keys r) \<and> distinct (sorted_keys r) \<and>
     set (sorted_keys r) = fst ` set (ring_tab r) \<and> distinct (map fst (ring_tab r))"

text \<open>
  A stand-in for SHA-256 on which examples are evaluated: the sum of the character codes.
\<close>

definition demo_hash :: "string \<Rightarrow> int" where
  "demo_hash s = sum_list (map of_char s)"

subsection \<open>Coordinator: table registry (\<^verbatim>\<open>TableRegistry\<close>)\<close>

record TableDef =
  td_table_name :: string
  td_partition_key :: string
  td_sort_key :: string

text \<open>The dictionary \<^verbatim>\<open>_tables\<close>, in insertion order.\<close>

type_synonym TableRegistry = "(string \<times> TableDef) list"

definition tables_register :: "TableRegistry \<Rightarrow> TableDef \<Rightarrow> TableDef \<times> TableRegistry" where
  "tables_register reg t = (t, AList.update (td_table_name t) t reg)"

definition tables_exists :: "TableRegistry \<Rightarrow> string \<Rightarrow> bool" where
  "tables_exists reg name = (map_of reg name \<noteq> None)"

definition tables_get :: "TableRegistry \<Rightarrow> string \<Rightarrow> ring_error + TableDef" where
  "tables_get reg name = (case map_of reg name of None \<Rightarrow> Inl KeyError | Some t \<Rightarrow> Inr t)"

definition tables_list :: "TableRegistry \<Rightarrow> TableDef list" where
  "tables_list reg = map snd reg"

text \<open>
  \<^verbatim>\<open>POST /tables\<close>: the request model rejects an empty field (\<^verbatim>\<open>min_length=1\<close>) with
  status 422 before the handler runs.
\<close>

definition register_table :: "TableRegistry \<Rightarrow> TableDef \<Rightarrow> (http_exc + TableDef) \<times> TableRegistry" where
  "register_table reg t =
     (if td_table_name t = [] \<or> td_partition_key t = [] \<or> td_sort_key t = []
      then (Inl (HTTPException 422), reg)
      else (case tables_register reg t of (d, reg') \<Rightarrow> (Inr d, reg')))"

text \<open>\<^verbatim>\<open>GET /tables/{table_name}\<close>.\<close>

definition get_table :: "TableRegistry \<Rightarrow> string \<Rightarrow> http_exc + TableDef" where
  "get_table reg name =
     (if \<not> tables_exists reg name then Inl (HTTPException 404)
      else (case tables_get reg name of Inl e \<Rightarrow> Inl (HTTPException 500) | Inr t \<Rightarrow> Inr t))"

subsection \<open>Coordinator: replica registry (\<^verbatim>\<open>ReplicaRegistry\<close>)\<close>

text \<open>
  Clock readings (\<^verbatim>\<open>time.time()\<close>) and the TTL are real numbers; each function that
  reads the clock takes the reading as an argument.  The per-shard dictionary of replicas
  is an association list in insertion order, which is the order \<^verbatim>\<open>active_replicas\<close>
  lists them in.
\<close>

record ReplicaInfo =
  ri_shard_name :: string
  ri_replica_url :: string
  ri_replica_id :: "string option"
  ri_role :: role
  ri_last_seen_unix :: real

record ReplicaRegistry =
  ttl_sec :: real
  reg_replicas :: "string \<rightharpoonup> (string \<times> ReplicaInfo) list"
  reg_leader_url :: "string \<rightharpoonup> string"
  reg_rr_idx :: "string \<rightharpoonup> nat"

text \<open>\<^verbatim>\<open>self._replicas.get(shard_name, {})\<close>.\<close>

definition shard_replicas :: "ReplicaRegistry \<Rightarrow> string \<Rightarrow> (string \<times> ReplicaInfo) list" where
  "shard_replicas reg shard_name = (case reg_replicas reg shard_name of None \<Rightarrow> [] | Some d \<Rightarrow> d)"

definition is_active :: "ReplicaRegistry \<Rightarrow> real \<Rightarrow> string \<Rightarrow> string \<Rightarrow> bool" where
  "is_active reg now shard_name u =
     (case map_of (shard_replicas reg shard_name) u of
        None \<Rightarrow> False
      | Some info \<Rightarrow> now - ri_last_seen_unix info \<le> ttl_sec reg)"

text \<open>
  \<^verbatim>\<open>register\<close> reads the clock once for \<^verbatim>\<open>last_seen_unix\<close> (\<open>now\<close>) and once inside
  \<^verbatim>\<open>_is_active\<close> (\<open>now_active\<close>).  A Python string is true when it is not empty.
\<close>

definition replica_register ::
  "ReplicaRegistry \<Rightarrow> real \<Rightarrow> real \<Rightarrow> string \<Rightarrow> string \<Rightarrow> string option \<Rightarrow> role
     \<Rightarrow> ring_error + ((role \<times> string) \<times> ReplicaRegistry)" where
  "replica_register reg now now_active shard_name replica_url0 replica_id requested_role =
     (let replica_url = rstrip_slash replica_url0;
          reps = shard_replicas reg shard_name;
          prev = map_of reps replica_url;
          leader0 = reg_leader_url reg shard_name;
          stale = (case leader0 of None \<Rightarrow> False
                   | Some l \<Rightarrow> l \<noteq> [] \<and> \<not> is_active reg now_active shard_name l);
          lmap1 = (if stale then (reg_leader_url reg)(shard_name := None) else reg_leader_url reg);
          leader = (if stale then None else leader0);
          assigned1 = (if leader = None then Leader else Follower);
          lmap2 = (if leader = None then lmap1(shard_name \<mapsto> replica_url) else lmap1);
          assigned2 = (if requested_role = Leader \<and> leader = None then Leader else assigned1);
          lmap3 = (if requested_role = Leader \<and> leader = None
                   then lmap2(shard_name \<mapsto> replica_url) else lmap2);
          assigned3 = (if (case prev of None \<Rightarrow> False | Some p \<Rightarrow> ri_role p = Leader)
                          \<and> lmap3 shard_name = Some replica_url
                       then Leader else assigned2);
          info = \<lparr>ri_shard_name = shard_name, ri_replica_url = replica_url,
                  ri_replica_id = replica_id, ri_role = assigned3, ri_last_seen_unix = now\<rparr>;
          reps1 = AList.update replica_url info reps;
          reps2 = (case lmap3 shard_name of
                     None \<Rightarrow> reps1
                   | Some lurl \<Rightarrow>
                       if lurl \<noteq> []
                       then (case map_of reps1 lurl of
                               None \<Rightarrow> reps1
                             | Some leader_info \<Rightarrow>
                                 AList.update lurl (leader_info\<lparr>ri_role := Leader\<rparr>) reps1)
                       else reps1)
      in case lmap3 shard_name of
           None \<Rightarrow> Inl KeyError
         | Some l \<Rightarrow>
             Inr ((assigned3, l),
                  reg\<lparr>reg_replicas := (reg_replicas reg)(shard_name \<mapsto> reps2),
                      reg_leader_url := lmap3\<rparr>))"

definition leader_url :: "ReplicaRegistry \<Rightarrow> real \<Rightarrow> string \<Rightarrow> string option" where
  "leader_url reg now shard_name =
     (case reg_leader_url reg shard_name of
        None \<Rightarrow> None
      | Some l \<Rightarrow> if l \<noteq> [] \<and> is_active reg now shard_name l then Some l else None)"

definition active_replicas :: "ReplicaRegistry \<Rightarrow> real \<Rightarrow> string \<Rightarrow> ReplicaInfo list" where
  "active_replicas reg now shard_name =
     filter (\<lambda>r. now - ri_last_seen_unix r \<le> ttl_sec reg) (map snd (shard_replicas reg shard_name))"

definition pick_read_replica ::
  "ReplicaRegistry \<Rightarrow> real \<Rightarrow> string \<Rightarrow> string option \<times> ReplicaRegistry" where
  "pick_read_replica reg now shard_name =
     (let reps = active_replicas reg now shard_name
      in if reps = [] then (None, reg)
         else
           let i = (case reg_rr_idx reg shard_name of None \<Rightarrow> 0 | Some j \<Rightarrow> j) mod length reps
           in (Some (ri_replica_url (reps ! i)),
               reg\<lparr>reg_rr_idx := (reg_rr_idx reg)(shard_name \<mapsto> i + 1)\<rparr>))"

text \<open>
  What the election relies on: a recorded leader URL is not empty, and the record stored
  under it, if any, carries the role leader.
\<close>

definition leader_recorded_ok :: "ReplicaRegistry \<Rightarrow> string \<Rightarrow> bool" where
  "leader_recorded_ok reg shard_name =
     (case reg_leader_url reg shard_name of
        None \<Rightarrow> True
      | Some l \<Rightarrow> l \<noteq> [] \<and>
          (case map_of (shard_replicas reg shard_name) l of
             None \<Rightarrow> True
           | Some info \<Rightarrow> ri_role info = Leader))"

subsection \<open>Coordinator: routing tier\<close>

text \<open>
  The module state of the coordinator: the two registries, the ring and the migration flags
  (\<^verbatim>\<open>_migration_in_progress\<close>, \<^verbatim>\<open>_old_ring\<close>).
\<close>

record coordinator =
  tables :: TableRegistry
  ring :: ConsistentHashRing
  registry :: ReplicaRegistry
  migration_in_progress :: bool
  old_ring :: "ConsistentHashRing option"

text \<open>The coordinator's \<^verbatim>\<open>RecordResponse\<close> has the additional field \<^verbatim>\<open>shard_url\<close>.\<close>

record RoutedRecordResponse = RecordResponse +
  rr_shard_url :: "string option"

text \<open>\<^verbatim>\<open>RecordResponse(**r.json(), shard_url=u)\<close>.\<close>

definition with_shard_url :: "RecordResponse \<Rightarrow> string \<Rightarrow> RoutedRecordResponse" where
  "with_shard_url d u =
     \<lparr>rr_table_name = rr_table_name d, rr_pk = rr_pk d, rr_sk = rr_sk d, rr_value = rr_value d,
      rr_version = rr_version d, rr_origin = rr_origin d, rr_shard_url = Some u\<rparr>"

text \<open>\<^verbatim>\<open>RecordResponse(table_name=..., pk=..., sk=..., value=None, shard_url=u)\<close>.\<close>

definition not_found_record :: "string \<Rightarrow> string \<Rightarrow> string \<Rightarrow> string \<Rightarrow> RoutedRecordResponse" where
  "not_found_record table_name pk sk u =
     \<lparr>rr_table_name = table_name, rr_pk = pk, rr_sk = sk, rr_value = None,
      rr_version = None, rr_origin = None, rr_shard_url = Some u\<rparr>"

text \<open>
  \<^verbatim>\<open>_pick_shard_name\<close> and \<^verbatim>\<open>_pick_shard_name_from_ring\<close>.  A \<^verbatim>\<open>KeyError\<close> of the
  ring is not handled by the coordinator and surfaces as status 500.
\<close>

definition pick_shard_name_from_ring ::
  "(string \<Rightarrow> int) \<Rightarrow> ConsistentHashRing \<Rightarrow> string \<Rightarrow> http_exc + string" where
  "pick_shard_name_from_ring H r pk_value =
     (case ring_get H r pk_value of
        Inl e \<Rightarrow> Inl (HTTPException 500)
      | Inr None \<Rightarrow> Inl (HTTPException 503)
      | Inr (Some node) \<Rightarrow> Inr (url node))"

definition pick_shard_name :: "(string \<Rightarrow> int) \<Rightarrow> coordinator \<Rightarrow> string \<Rightarrow> http_exc + string" where
  "pick_shard_name H c pk_value = pick_shard_name_from_ring H (ring c) pk_value"

text \<open>\<^verbatim>\<open>_leader_url\<close> and \<^verbatim>\<open>_read_url\<close>: 503 when the registry has nothing to offer.\<close>

definition leader_url_or_503 :: "ReplicaRegistry \<Rightarrow> real \<Rightarrow> string \<Rightarrow> http_exc + string" where
  "leader_url_or_503 reg now shard_name =
     (case leader_url reg now shard_name of
        None \<Rightarrow> Inl (HTTPException 503)
      | Some u \<Rightarrow> if u = [] then Inl (HTTPException 503) else Inr u)"

definition read_url ::
  "ReplicaRegistry \<Rightarrow> real \<Rightarrow> string \<Rightarrow> (http_exc + string) \<times> ReplicaRegistry" where
  "read_url reg now shard_name =
     (case pick_read_replica reg now shard_name of
        (None, reg') \<Rightarrow> (Inl (HTTPException 503), reg')
      | (Some u, reg') \<Rightarrow> if u = [] then (Inl (HTTPException 503), reg') else (Inr u, reg'))"

text \<open>
  \<^verbatim>\<open>r.raise_for_status()\<close> followed by \<^verbatim>\<open>RecordResponse(**r.json(), shard_url=u)\<close>, inside
  \<^verbatim>\<open>except requests.RequestException\<close>: an error status or a body that is not JSON gives
  502.
\<close>

definition forward_record :: "nat \<Rightarrow> RecordResponse option \<Rightarrow> string \<Rightarrow> http_exc + RoutedRecordResponse" where
  "forward_record code body u =
     (if 400 \<le> code \<and> code < 600 then Inl (HTTPException 502)
      else (case body of None \<Rightarrow> Inl (HTTPException 502) | Some d \<Rightarrow> Inr (with_shard_url d u)))"

text \<open>
  \<^verbatim>\<open>GET /records\<close> on the coordinator.  \<open>fetch u\<close> is what the replica at \<open>u\<close> answers the
  read with; \<open>now\<close> and \<open>now2\<close> are the clock readings of the two calls of
  \<^verbatim>\<open>pick_read_replica\<close>.  The result is the response, the URLs that were queried, in order,
  and the coordinator afterwards (the round-robin cursors move).
\<close>

definition read_fallback ::
  "(string \<Rightarrow> int) \<Rightarrow> (string \<Rightarrow> http_reply) \<Rightarrow> real \<Rightarrow> coordinator
     \<Rightarrow> string \<Rightarrow> string \<Rightarrow> string \<Rightarrow> string \<Rightarrow> string
     \<Rightarrow> (http_exc + RoutedRecordResponse) \<times> string list \<times> coordinator" where
  "read_fallback H fetch now2 c table_name pk sk primary_shard_name primary =
     (case (if migration_in_progress c then old_ring c else None) of
        None \<Rightarrow> (Inr (not_found_record table_name pk sk primary), [primary], c)
      | Some oldr \<Rightarrow>
          (case pick_shard_name_from_ring H oldr pk of
             Inl e \<Rightarrow> (Inl e, [primary], c)
           | Inr old_shard_name \<Rightarrow>
               if old_shard_name \<noteq> primary_shard_name
               then (case read_url (registry c) now2 old_shard_name of
                       (Inl e, reg') \<Rightarrow> (Inl e, [primary], c\<lparr>registry := reg'\<rparr>)
                     | (Inr fallback, reg') \<Rightarrow>
                         (case fetch fallback of
                            RequestException \<Rightarrow>
                              (Inl (HTTPException 502), [primary, fallback], c\<lparr>registry := reg'\<rparr>)
                          | Reply code2 body2 \<Rightarrow>
                              if code2 \<noteq> 404
                              then (forward_record code2 body2 fallback, [primary, fallback],
                                    c\<lparr>registry := reg'\<rparr>)
                              else (Inr (not_found_record table_name pk sk primary),
                                    [primary, fallback], c\<lparr>registry := reg'\<rparr>)))
               else (Inr (not_found_record table_name pk sk primary), [primary], c)))"

definition read_record ::
  "(string \<Rightarrow> int) \<Rightarrow> (string \<Rightarrow> http_reply) \<Rightarrow> real \<Rightarrow> real \<Rightarrow> coordinator
     \<Rightarrow> string \<Rightarrow> string \<Rightarrow> string
     \<Rightarrow> (http_exc + RoutedRecordResponse) \<times> string list \<times> coordinator" where
  "read_record H fetch now now2 c table_name pk sk =
     (if \<not> tables_exists (tables c) table_name then (Inl (HTTPException 404), [], c)
      else
        case pick_shard_name H c pk of
          Inl e \<Rightarrow> (Inl e, [], c)
        | Inr primary_shard_name \<Rightarrow>
            (case read_url (registry c) now primary_shard_name of
               (Inl e, reg') \<Rightarrow> (Inl e, [], c\<lparr>registry := reg'\<rparr>)
             | (Inr primary, reg') \<Rightarrow>
                 (case fetch primary of
                    RequestException \<Rightarrow> (Inl (HTTPException 502), [primary], c\<lparr>registry := reg'\<rparr>)
                  | Reply code body \<Rightarrow>
                      if code = 404
                      then read_fallback H fetch now2 (c\<lparr>registry := reg'\<rparr>) table_name pk sk
                             primary_shard_name primary
                      else (forward_record code body primary, [primary], c\<lparr>registry := reg'\<rparr>))))"


text \<open>
  \<^verbatim>\<open>_exists_call\<close>: the answer of a replica to \<^verbatim>\<open>GET /exists\<close> is a failed request, or a
  status code with the value of the field \<^verbatim>\<open>exists\<close> of the body, if the body is JSON and
  has it.  The call returns the boolean or raises (\<open>None\<close>).
\<close>

datatype exists_reply = ExistsRequestException | ExistsReply nat "bool option"

definition exists_call :: "(string \<Rightarrow> exists_reply) \<Rightarrow> string \<Rightarrow> bool option" where
  "exists_call ask replica_url =
     (case ask (rstrip_slash replica_url) of
        ExistsRequestException \<Rightarrow> None
      | ExistsReply code has \<Rightarrow> if 400 \<le> code \<and> code < 600 then None else has)"

text \<open>The loop over the other active replicas; it returns the answer and the replicas asked.\<close>

fun poll_followers ::
  "(string \<Rightarrow> exists_reply) \<Rightarrow> string \<Rightarrow> ReplicaInfo list \<Rightarrow> bool \<times> string list" where
  "poll_followers ask leader [] = (False, [])"
| "poll_followers ask leader (rep # reps) =
     (if ri_replica_url rep = leader then poll_followers ask leader reps
      else if exists_call ask (ri_replica_url rep) = Some True then (True, [ri_replica_url rep])
      else (case poll_followers ask leader reps of
              (found, asked) \<Rightarrow> (found, ri_replica_url rep # asked)))"

text \<open>
  \<^verbatim>\<open>GET /exists\<close> on the coordinator; \<open>now\<close> is the clock reading of \<^verbatim>\<open>leader_url\<close> and
  \<open>now2\<close> that of \<^verbatim>\<open>active_replicas\<close>.
\<close>

definition exists_record ::
  "(string \<Rightarrow> int) \<Rightarrow> (string \<Rightarrow> exists_reply) \<Rightarrow> real \<Rightarrow> real \<Rightarrow> coordinator
     \<Rightarrow> string \<Rightarrow> string \<Rightarrow> string \<Rightarrow> (http_exc + bool) \<times> string list" where
  "exists_record H ask now now2 c table_name pk sk =
     (if \<not> tables_exists (tables c) table_name then (Inl (HTTPException 404), [])
      else
        case pick_shard_name H c pk of
          Inl e \<Rightarrow> (Inl e, [])
        | Inr shard_name \<Rightarrow>
            (case leader_url_or_503 (registry c) now shard_name of
               Inl e \<Rightarrow> (Inl e, [])
             | Inr leader \<Rightarrow>
                 (case exists_call ask leader of
                    None \<Rightarrow> (Inl (HTTPException 503), [leader])
                  | Some True \<Rightarrow> (Inr True, [leader])
                  | Some False \<Rightarrow>
                      (case poll_followers ask leader (active_replicas (registry c) now2 shard_name) of
                         (found, asked) \<Rightarrow> (Inr found, leader # asked)))))"



text \<open>The status code a client sees.\<close>

definition status_of :: "http_exc + 'a \<Rightarrow> nat" where
  "status_of res = (case res of Inl e \<Rightarrow> status_code e | Inr x \<Rightarrow> 200)"

subsection \<open>A small cluster for examples\<close>

text \<open>
  One table, one shard \<^verbatim>\<open>s1\<close> with one virtual node, and two replicas of it that
  registered at time 0: \<^verbatim>\<open>http://r1\<close>, the leader, and \<^verbatim>\<open>http://r2\<close>.
\<close>

definition demo_ring :: ConsistentHashRing where
  "demo_ring = \<lparr>replicas = 1, ring_tab = [(247, RingNode ''s1'')], sorted_keys = [247]\<rparr>"

definition demo_registry :: ReplicaRegistry where
  "demo_registry =
     \<lparr>ttl_sec = 30,
      reg_replicas = [''s1'' \<mapsto>
        [(''http://r1'', \<lparr>ri_shard_name = ''s1'', ri_replica_url = ''http://r1'',
            ri_replica_id = None, ri_role = Leader, ri_last_seen_unix = 0\<rparr>),
         (''http://r2'', \<lparr>ri_shard_name = ''s1'', ri_replica_url = ''http://r2'',
            ri_replica_id = None, ri_role = Follower, ri_last_seen_unix = 0\<rparr>)]],
      reg_leader_url = [''s1'' \<mapsto> ''http://r1''],
      reg_rr_idx = Map.empty\<rparr>"

definition demo_coordinator :: coordinator where
  "demo_coordinator =
     \<lparr>tables = [(''users'', \<lparr>td_table_name = ''users'', td_partition_key = ''id'',
                               td_sort_key = ''ts''\<rparr>)],
      ring = demo_ring, registry = demo_registry,
      migration_in_progress = False, old_ring = None\<rparr>"





subsection \<open>Coordinator: registration of a replica and the start of a migration\<close>

record RegisterReplicaRequest =
  rq_shard_name :: string
  rq_replica_url :: string
  rq_replica_id :: "string option"
  rq_role :: role

record RegisterReplicaResponse =
  rs_shard_name :: string
  rs_assigned_role :: role
  rs_leader_url :: string

text \<open>\<^verbatim>\<open>for s in sorted(before_nodes): prev_ring.add(RingNode(url=s))\<close>.\<close>

fun add_all ::
  "(string \<Rightarrow> int) \<Rightarrow> string list \<Rightarrow> ConsistentHashRing \<Rightarrow> ring_error + ConsistentHashRing" where
  "add_all H [] r = Inr r"
| "add_all H (s # ss) r =
     (case ring_add H r (RingNode s) of Inl e \<Rightarrow> Inl e | Inr r' \<Rightarrow> add_all H ss r')"

text \<open>
  \<^verbatim>\<open>POST /register-replica\<close>.  The handler returns when it has started the migration
  worker (\<^verbatim>\<open>threading.Thread(target=_migrate_background, ...).start()\<close>); the worker, which
  follows, runs beside the request handlers, and the state returned here is the one they see
  until the worker has ended.
  The request model rejects empty names (status 422); an exception of the registry or of the
  ring is not handled (status 500, the state is left as it was before the failing step).
  \<open>now\<close> and \<open>now_active\<close> are the clock readings of \<^verbatim>\<open>register\<close>, \<open>now_leader\<close> that of
  \<^verbatim>\<open>leader_url\<close>.
\<close>

definition register_replica ::
  "(string \<Rightarrow> int) \<Rightarrow> real \<Rightarrow> real \<Rightarrow> real \<Rightarrow> coordinator \<Rightarrow> RegisterReplicaRequest
     \<Rightarrow> (http_exc + RegisterReplicaResponse) \<times> coordinator" where
  "register_replica H now now_active now_leader c req =
     (if rq_shard_name req = [] \<or> rq_replica_url req = [] then (Inl (HTTPException 422), c)
      else
        let before_nodes = map url (nodes (ring c))
        in case replica_register (registry c) now now_active (rq_shard_name req)
                  (rq_replica_url req) (rq_replica_id req) (rq_role req) of
             Inl e \<Rightarrow> (Inl (HTTPException 500), c)
           | Inr ((assigned_role, lurl), reg') \<Rightarrow>
               (case (if leader_url reg' now_leader (rq_shard_name req) \<noteq> None
                      then ring_add H (ring c) (RingNode (rq_shard_name req))
                      else Inr (ring c)) of
                  Inl e \<Rightarrow> (Inl (HTTPException 500), c\<lparr>registry := reg'\<rparr>)
                | Inr ring' \<Rightarrow>
                    let after_nodes = map url (nodes ring');
                        c1 = c\<lparr>ring := ring', registry := reg'\<rparr>;
                        resp = \<lparr>rs_shard_name = rq_shard_name req,
                                rs_assigned_role = assigned_role, rs_leader_url = lurl\<rparr>
                    in if rq_shard_name req \<in> set after_nodes
                          \<and> rq_shard_name req \<notin> set before_nodes
                       then (case add_all H (sort before_nodes)
                                    \<lparr>replicas = replicas (ring c), ring_tab = [], sorted_keys = []\<rparr> of
                               Inl e \<Rightarrow> (Inl (HTTPException 500), c1)
                             | Inr prev_ring \<Rightarrow>
                                 (Inr resp,
                                  if \<not> migration_in_progress c1
                                  then c1\<lparr>migration_in_progress := True, old_ring := Some prev_ring\<rparr>
                                  else c1))
                       else (Inr resp, c1)))"

text \<open>
  \<^verbatim>\<open>_migrate_background(old_ring)\<close>, the worker thread.  It walks the shards of the snapshot
  in the order of \<^verbatim>\<open>nodes()\<close>.  A shard without an active leader is skipped; the leader of
  any other shard is sent \<^verbatim>\<open>GET /internal/keys\<close> and then the \<^verbatim>\<open>migrate-put\<close> and
  \<^verbatim>\<open>migrate-del\<close> requests for the keys that moved, and the worker waits for each answer
  (time-outs of 15 and 30 seconds).  Of the state of the coordinator the worker writes the two
  flags only: its \<^verbatim>\<open>finally\<close> clause clears them, when the last answer has arrived or a
  request has failed.

  \<open>migrate_background_sources\<close> are the leaders whose keys the worker asks for, as long as no
  request fails; \<open>clock s\<close> is the clock reading of \<^verbatim>\<open>leader_url\<close> for the shard \<open>s\<close>.
  When there is none, the worker reaches its \<^verbatim>\<open>finally\<close> clause without waiting for any
  shard.  The requests themselves go to the shards and are not modelled.
\<close>

definition migrate_background_sources ::
  "ReplicaRegistry \<Rightarrow> (string \<Rightarrow> real) \<Rightarrow> ConsistentHashRing \<Rightarrow> string list" where
  "migrate_background_sources reg clock oldr =
     List.map_filter (\<lambda>n. leader_url reg (clock (url n)) (url n)) (nodes oldr)"

definition migrate_background_finally :: "coordinator \<Rightarrow> coordinator" where
  "migrate_background_finally c = c\<lparr>migration_in_progress := False, old_ring := None\<rparr>"

text \<open>A coordinator that knows one table and has seen no replica yet.\<close>

definition fresh_coordinator :: coordinator where
  "fresh_coordinator =
     \<lparr>tables = [(''users'', \<lparr>td_table_name = ''users'', td_partition_key = ''id'',
                               td_sort_key = ''ts''\<rparr>)],
      ring = \<lparr>replicas = 1, ring_tab = [], sorted_keys = []\<rparr>,
      registry = \<lparr>ttl_sec = 30, reg_replicas = Map.empty, reg_leader_url = Map.empty,
                   reg_rr_idx = Map.empty\<rparr>,
      migration_in_progress = False, old_ring = None\<rparr>"

text \<open>
  The same coordinator right after the first replica of the first shard has registered at
  time 0: the shard is in the ring and a migration from the empty ring has been started.
\<close>

definition first_shard_coordinator :: coordinator where
  "first_shard_coordinator =
     \<lparr>tables = [(''users'', \<lparr>td_table_name = ''users'', td_partition_key = ''id'',
                               td_sort_key = ''ts''\<rparr>)],
      ring = \<lparr>replicas = 1, ring_tab = [(247, RingNode ''s1'')], sorted_keys = [247]\<rparr>,
      registry = \<lparr>ttl_sec = 30,
                   reg_replicas = [''s1'' \<mapsto>
                     [(''http://r1'', \<lparr>ri_shard_name = ''s1'', ri_replica_url = ''http://r1'',
                         ri_replica_id = None, ri_role = Leader, ri_last_seen_unix = 0\<rparr>)]],
                   reg_leader_url = [''s1'' \<mapsto> ''http://r1''],
                   reg_rr_idx = Map.empty\<rparr>,
      migration_in_progress = True,
      old_ring = Some \<lparr>replicas = 1, ring_tab = [], sorted_keys = []\<rparr>\<rparr>"

text \<open>
  A coordinator with two shards at time 100: the only replica of shard \<^verbatim>\<open>s1\<close> was last
  seen at time 0, the replica of shard \<^verbatim>\<open>s2\<close> has just been seen.  Nothing in the
  coordinator takes a shard out of the ring.
\<close>

definition two_shard_coordinator :: coordinator where
  "two_shard_coordinator =
     \<lparr>tables = [(''users'', \<lparr>td_table_name = ''users'', td_partition_key = ''id'',
                               td_sort_key = ''ts''\<rparr>)],
      ring = \<lparr>replicas = 1, ring_tab = [(247, RingNode ''s1''), (248, RingNode ''s2'')],
               sorted_keys = [247, 248]\<rparr>,
      registry = \<lparr>ttl_sec = 30,
                   reg_replicas = [''s1'' \<mapsto>
                     [(''http://r1'', \<lparr>ri_shard_name = ''s1'', ri_replica_url = ''http://r1'',
                         ri_replica_id = None, ri_role = Leader, ri_last_seen_unix = 0\<rparr>)],
                     ''s2'' \<mapsto>
                     [(''http://r2'', \<lparr>ri_shard_name = ''s2'', ri_replica_url = ''http://r2'',
                         ri_replica_id = None, ri_role = Leader, ri_last_seen_unix = 100\<rparr>)]],
                   reg_leader_url = [''s1'' \<mapsto> ''http://r1'', ''s2'' \<mapsto> ''http://r2''],
                   reg_rr_idx = Map.empty\<rparr>,
      migration_in_progress = False, old_ring = None\<rparr>"

text \<open>
  The same coordinator after the first replica of a third shard \<^verbatim>\<open>s0\<close> has registered at
  time 100: \<^verbatim>\<open>s0\<close> is in the ring, the ring of \<^verbatim>\<open>s1\<close> and \<^verbatim>\<open>s2\<close> is the snapshot,
  and the worker is at work.
\<close>

definition waiting_migration_coordinator :: coordinator where
  "waiting_migration_coordinator =
     \<lparr>tables = [(''users'', \<lparr>td_table_name = ''users'', td_partition_key = ''id'',
                               td_sort_key = ''ts''\<rparr>)],
      ring = \<lparr>replicas = 1,
               ring_tab = [(247, RingNode ''s1''), (248, RingNode ''s2''), (246, RingNode ''s0'')],
               sorted_keys = [246, 247, 248]\<rparr>,
      registry = \<lparr>ttl_sec = 30,
                   reg_replicas = [''s1'' \<mapsto>
                     [(''http://r1'', \<lparr>ri_shard_name = ''s1'', ri_replica_url = ''http://r1'',
                         ri_replica_id = None, ri_role = Leader, ri_last_seen_unix = 0\<rparr>)],
                     ''s2'' \<mapsto>
                     [(''http://r2'', \<lparr>ri_shard_name = ''s2'', ri_replica_url = ''http://r2'',
                         ri_replica_id = None, ri_role = Leader, ri_last_seen_unix = 100\<rparr>)],
                     ''s0'' \<mapsto>
                     [(''http://r0'', \<lparr>ri_shard_name = ''s0'', ri_replica_url = ''http://r0'',
                         ri_replica_id = None, ri_role = Leader, ri_last_seen_unix = 100\<rparr>)]],
                   reg_leader_url = [''s1'' \<mapsto> ''http://r1'', ''s2'' \<mapsto> ''http://r2'',
                                     ''s0'' \<mapsto> ''http://r0''],
                   reg_rr_idx = Map.empty\<rparr>,
      migration_in_progress = True,
      old_ring = Some \<lparr>replicas = 1, ring_tab = [(247, RingNode ''s1''), (248, RingNode ''s2'')],
                        sorted_keys = [247, 248]\<rparr>\<rparr>"

text \<open>
  A coordinator in the middle of a migration: shard \<^verbatim>\<open>s1\<close> joined the ring of shard
  \<^verbatim>\<open>s0\<close>, and the ring of \<^verbatim>\<open>s0\<close> alone is the snapshot.
\<close>

definition migrating_coordinator :: coordinator where
  "migrating_coordinator =
     \<lparr>tables = [(''users'', \<lparr>td_table_name = ''users'', td_partition_key = ''id'',
                               td_sort_key = ''ts''\<rparr>)],
      ring = \<lparr>replicas = 1, ring_tab = [(246, RingNode ''s0''), (247, RingNode ''s1'')],
               sorted_keys = [246, 247]\<rparr>,
      registry = \<lparr>ttl_sec = 30,
                   reg_replicas = [''s0'' \<mapsto>
                     [(''http://r0'', \<lparr>ri_shard_name = ''s0'', ri_replica_url = ''http://r0'',
                         ri_replica_id = None, ri_role = Leader, ri_last_seen_unix = 0\<rparr>)],
                     ''s1'' \<mapsto>
                     [(''http://r1'', \<lparr>ri_shard_name = ''s1'', ri_replica_url = ''http://r1'',
                         ri_replica_id = None, ri_role = Leader, ri_last_seen_unix = 0\<rparr>)]],
                   reg_leader_url = [''s0'' \<mapsto> ''http://r0'', ''s1'' \<mapsto> ''http://r1''],
                   reg_rr_idx = Map.empty\<rparr>,
      migration_in_progress = True,
      old_ring = Some \<lparr>replicas = 1, ring_tab = [(246, RingNode ''s0'')], sorted_keys = [246]\<rparr>\<rparr>"

text \<open>A record as the old owner still holds it.\<close>

definition demo_record :: RecordResponse where
  "demo_record =
     \<lparr>rr_table_name = ''users'', rr_pk = ''s0#0'', rr_sk = ''2024'',
      rr_value = Some [(''name'', JStr ''Ada'')], rr_version = Some 5, rr_origin = None\<rparr>"

section \<open>Shard store: last-writer-wins\<close>

lemma tuple_le_iff: "tuple_le a b \<longleftrightarrow> \<not> tuple_gt a b"
  by (auto simp: tuple_le_def tuple_gt_def)

lemma tuple_le_refl: "tuple_le a a"
  by (simp add: tuple_le_def)

lemma tuple_le_trans: "tuple_le a b \<Longrightarrow> tuple_le b c \<Longrightarrow> tuple_le a c"
  by (auto simp: tuple_le_def)

lemma tuple_le_antisym: "tuple_le a b \<Longrightarrow> tuple_le b a \<Longrightarrow> a = b"
  by (auto simp: tuple_le_def prod_eq_iff)

lemma tuple_le_total: "tuple_le a b \<or> tuple_le b a"
  by (auto simp: tuple_le_def)

lemma apply_events_snoc: "apply_events (es @ [e]) st = apply_store_event (apply_events es st) e"
  by (simp add: apply_events_def)

lemma apply_events_Nil: "apply_events [] st = st"
  by (simp add: apply_events_def)

lemma ev_key_table: "fst (ev_key e) = ev_table e"
  by (cases e) auto

lemma slot_vo: "(slot_version (ev_slot e), slot_origin (ev_slot e)) = ev_vo e"
  by (cases e) auto

lemma apply_event_cases:
  "apply_store_event st e =
     (if wins st e
      then st(ev_table e \<mapsto> (setdefault_table st (ev_table e))(snd (ev_key e) \<mapsto> ev_slot e))
      else st(ev_table e \<mapsto> setdefault_table st (ev_table e)))"
  by (cases e) (auto simp: wins_def store_put_def store_delete_def Let_def slot_at_def store_slot_def setdefault_table_def split: option.splits)

lemma slot_at_apply:
  "slot_at (apply_store_event st e) k =
     (if k = ev_key e \<and> wins st e then Some (ev_slot e) else slot_at st k)"
  by (cases k; cases e)
     (auto simp: apply_event_cases slot_at_def store_slot_def setdefault_table_def split: option.splits)

lemma table_apply:
  "apply_store_event st e t = None \<longleftrightarrow> st t = None \<and> t \<noteq> ev_table e"
  by (auto simp: apply_event_cases)

lemma lww_inv_step:
  assumes "lww_inv es st"
  shows "lww_inv (es @ [e]) (apply_store_event st e)"
proof -
  have tabs: "\<forall>t. apply_store_event st e t = None \<longleftrightarrow> (\<forall>x \<in> set (es @ [e]). ev_table x \<noteq> t)"
    using assms by (auto simp: lww_inv_def table_apply)
  have slots: "slot_ok (es @ [e]) k (slot_at (apply_store_event st e) k)" for k
  proof -
    from assms have old: "slot_ok es k (slot_at st k)"
      unfolding lww_inv_def by blast
    show ?thesis
    proof (cases "k = ev_key e")
      case False
      with old show ?thesis by (auto simp: slot_ok_def slot_at_apply split: option.splits)
    next
      case k: True
      show ?thesis
      proof (cases "slot_at st k")
        case None
        with k have "wins st e" by (simp add: wins_def)
        with k None old show ?thesis by (auto simp: slot_ok_def slot_at_apply tuple_le_refl)
      next
        case (Some c)
        with old obtain x where x: "x \<in> set es" "ev_key x = k" "ev_slot x = c"
          "\<forall>e' \<in> set es. ev_key e' = k \<longrightarrow> tuple_le (ev_vo e') (ev_vo x)"
          by (auto simp: slot_ok_def)
        have c: "(slot_version c, slot_origin c) = ev_vo x" using x(3) slot_vo[of x] by simp
        show ?thesis
        proof (cases "wins st e")
          case True
          then have gt: "tuple_gt (ev_vo e) (ev_vo x)" using Some k c by (simp add: wins_def)
          then have "tuple_le (ev_vo x) (ev_vo e)" using tuple_le_total tuple_le_iff by blast
          then have "\<forall>e' \<in> set (es @ [e]). ev_key e' = k \<longrightarrow> tuple_le (ev_vo e') (ev_vo e)"
            using x(4) by (auto intro: tuple_le_trans tuple_le_refl)
          with True k show ?thesis by (auto simp: slot_ok_def slot_at_apply)
        next
          case False
          then have "tuple_le (ev_vo e) (ev_vo x)" using Some k c by (simp add: wins_def tuple_le_iff)
          then have "\<forall>e' \<in> set (es @ [e]). ev_key e' = k \<longrightarrow> tuple_le (ev_vo e') (ev_vo x)"
            using x(4) by auto
          with False k Some x show ?thesis by (auto simp: slot_ok_def slot_at_apply)
        qed
      qed
    qed
  qed
  show ?thesis unfolding lww_inv_def using tabs slots by blast
qed

lemma lww_inv_empty: "lww_inv [] Map.empty"
  by (simp add: lww_inv_def slot_ok_def slot_at_def store_slot_def split: prod.splits)

lemma lww_inv_apply_events: "lww_inv es (apply_events es Map.empty)"
proof (induction es rule: rev_induct)
  case Nil
  show ?case by (simp add: apply_events_Nil lww_inv_empty)
next
  case (snoc e es)
  then show ?case by (simp add: apply_events_snoc lww_inv_step)
qed


lemma final_slot_determined:
  assumes "set es = set es'" and "ties_agree es"
  shows "slot_at (apply_events es Map.empty) k = slot_at (apply_events es' Map.empty) k"
proof -
  have a: "slot_ok es k (slot_at (apply_events es Map.empty) k)"
    using lww_inv_apply_events[of es] unfolding lww_inv_def by blast
  have "slot_ok es' k (slot_at (apply_events es' Map.empty) k)"
    using lww_inv_apply_events[of es'] unfolding lww_inv_def by blast
  then have b: "slot_ok es k (slot_at (apply_events es' Map.empty) k)"
    using assms(1) by (simp add: slot_ok_def split: option.splits)
  show ?thesis
  proof (cases "slot_at (apply_events es Map.empty) k")
    case None
    with a b show ?thesis by (auto simp: slot_ok_def split: option.splits)
  next
    case (Some sl)
    with a obtain e where e: "e \<in> set es" "ev_key e = k" "ev_slot e = sl"
      "\<forall>x \<in> set es. ev_key x = k \<longrightarrow> tuple_le (ev_vo x) (ev_vo e)"
      by (auto simp: slot_ok_def)
    with b obtain sl' where sl': "slot_at (apply_events es' Map.empty) k = Some sl'"
      by (cases "slot_at (apply_events es' Map.empty) k") (auto simp: slot_ok_def)
    with b obtain e' where e': "e' \<in> set es" "ev_key e' = k" "ev_slot e' = sl'"
      "\<forall>x \<in> set es. ev_key x = k \<longrightarrow> tuple_le (ev_vo x) (ev_vo e')"
      by (auto simp: slot_ok_def)
    have "ev_vo e = ev_vo e'"
      using e e' by (auto intro: tuple_le_antisym)
    moreover have "\<forall>y \<in> set es. ev_key e = ev_key y \<and> ev_vo e = ev_vo y \<longrightarrow> ev_slot e = ev_slot y"
      using assms(2) e(1) unfolding ties_agree_def by (rule bspec)
    then have "ev_key e = ev_key e' \<and> ev_vo e = ev_vo e' \<longrightarrow> ev_slot e = ev_slot e'"
      using e'(1) by (rule bspec)
    ultimately have "ev_slot e = ev_slot e'"
      using e(2) e'(2) by simp
    with Some sl' e(3) e'(3) show ?thesis by simp
  qed
qed

lemma final_store_determined:
  assumes "set es = set es'" and "ties_agree es"
  shows "apply_events es Map.empty = apply_events es' Map.empty"
proof (rule ext)
  fix t
  let ?S = "apply_events es Map.empty" and ?S' = "apply_events es' Map.empty"
  have n: "?S t = None \<longleftrightarrow> ?S' t = None"
    using lww_inv_apply_events[of es] lww_inv_apply_events[of es'] assms(1)
    unfolding lww_inv_def by simp
  show "?S t = ?S' t"
  proof (cases "?S t")
    case None
    with n show ?thesis by simp
  next
    case (Some tb)
    with n obtain tb' where tb': "?S' t = Some tb'" by auto
    have "tb p = tb' p" for p
      using final_slot_determined[OF assms, of "(t, fst p, snd p)"] Some tb'
      by (simp add: slot_at_def store_slot_def)
    then have "tb = tb'" by (rule ext)
    with Some tb' show ?thesis by simp
  qed
qed

lemma stale_event_noop:
  assumes "slot_at st (ev_key e) = Some c"
    and "\<not> tuple_gt (ev_vo e) (slot_version c, slot_origin c)"
  shows "apply_store_event st e = st"
proof -
  from assms have nw: "\<not> wins st e" by (simp add: wins_def)
  obtain tb where tb: "st (ev_table e) = Some tb"
    using assms(1) ev_key_table[of e]
    by (cases "ev_key e") (auto simp: slot_at_def store_slot_def split: option.splits)
  then show ?thesis using nw
    by (simp add: apply_event_cases setdefault_table_def fun_upd_idem)
qed

lemma reapply_noop:
  assumes "e \<in> set es"
  shows "apply_store_event (apply_events es Map.empty) e = apply_events es Map.empty"
proof -
  have "slot_ok es (ev_key e) (slot_at (apply_events es Map.empty) (ev_key e))"
    using lww_inv_apply_events[of es] unfolding lww_inv_def by blast
  with assms obtain x where x: "slot_at (apply_events es Map.empty) (ev_key e) = Some (ev_slot x)"
     "tuple_le (ev_vo e) (ev_vo x)"
    by (cases "slot_at (apply_events es Map.empty) (ev_key e)") (auto simp: slot_ok_def)
  show ?thesis
    by (rule stale_event_noop[OF x(1)]) (use x(2) in \<open>simp add: slot_vo tuple_le_iff\<close>)
qed

text \<open>
  Claim C1 (last-writer-wins convergence), as amended.  Two orderings of one multiset of
  PUT/DEL events, applied to empty stores through \<^const>\<open>store_put\<close> and
  \<^const>\<open>store_delete\<close>, give identical stores provided events that tie on key and
  \<open>(version, origin)\<close> write the same slot.  With or without ties: a key no event
  addressed has no slot; the \<open>(version, origin)\<close> stored for a key is that of an applied
  event of the key and is lexicographically greatest among them; an event that is not strictly
  greater than the current slot leaves the store as it is; and applying any event of the
  stream once more changes nothing.
\<close>

theorem lww_convergence:
  assumes "mset es = mset es'"
  shows "(ties_agree es \<longrightarrow> apply_events es Map.empty = apply_events es' Map.empty)
    \<and> (\<forall>k. (\<forall>e \<in> set es. ev_key e \<noteq> k) \<longrightarrow> slot_at (apply_events es Map.empty) k = None)
    \<and> (\<forall>k. (\<exists>e \<in> set es. ev_key e = k) \<longrightarrow>
          (\<exists>sl. slot_at (apply_events es Map.empty) k = Some sl
             \<and> (\<exists>e \<in> set es. ev_key e = k \<and> ev_vo e = (slot_version sl, slot_origin sl))
             \<and> (\<forall>e \<in> set es. ev_key e = k \<longrightarrow>
                   tuple_le (ev_vo e) (slot_version sl, slot_origin sl))))
    \<and> (\<forall>st e c. slot_at st (ev_key e) = Some c
          \<and> \<not> tuple_gt (ev_vo e) (slot_version c, slot_origin c) \<longrightarrow> apply_store_event st e = st)
    \<and> (\<forall>e \<in> set es. apply_store_event (apply_events es Map.empty) e = apply_events es Map.empty)"
proof -
  from assms have s: "set es = set es'" by (rule mset_eq_setD)
  have c1: "ties_agree es \<longrightarrow> apply_events es Map.empty = apply_events es' Map.empty"
    using final_store_determined[OF s] by blast
  have ok: "slot_ok es k (slot_at (apply_events es Map.empty) k)" for k
    using lww_inv_apply_events[of es] unfolding lww_inv_def by blast
  have c2: "\<forall>k. (\<forall>e \<in> set es. ev_key e \<noteq> k) \<longrightarrow> slot_at (apply_events es Map.empty) k = None"
  proof (intro allI impI)
    fix k assume "\<forall>e \<in> set es. ev_key e \<noteq> k"
    with ok[of k] show "slot_at (apply_events es Map.empty) k = None"
      by (cases "slot_at (apply_events es Map.empty) k") (auto simp: slot_ok_def)
  qed
  have c3: "\<forall>k. (\<exists>e \<in> set es. ev_key e = k) \<longrightarrow>
          (\<exists>sl. slot_at (apply_events es Map.empty) k = Some sl
             \<and> (\<exists>e \<in> set es. ev_key e = k \<and> ev_vo e = (slot_version sl, slot_origin sl))
             \<and> (\<forall>e \<in> set es. ev_key e = k \<longrightarrow>
                   tuple_le (ev_vo e) (slot_version sl, slot_origin sl)))"
  proof (intro allI impI)
    fix k assume "\<exists>e \<in> set es. ev_key e = k"
    with ok[of k] obtain x where x: "slot_at (apply_events es Map.empty) k = Some (ev_slot x)"
      "x \<in> set es" "ev_key x = k"
      "\<forall>e' \<in> set es. ev_key e' = k \<longrightarrow> tuple_le (ev_vo e') (ev_vo x)"
      by (cases "slot_at (apply_events es Map.empty) k") (auto simp: slot_ok_def)
    then show "\<exists>sl. slot_at (apply_events es Map.empty) k = Some sl
             \<and> (\<exists>e \<in> set es. ev_key e = k \<and> ev_vo e = (slot_version sl, slot_origin sl))
             \<and> (\<forall>e \<in> set es. ev_key e = k \<longrightarrow>
                   tuple_le (ev_vo e) (slot_version sl, slot_origin sl))"
      using slot_vo[of x] by auto
  qed
  have c4: "\<forall>st e c. slot_at st (ev_key e) = Some c
          \<and> \<not> tuple_gt (ev_vo e) (slot_version c, slot_origin c) \<longrightarrow> apply_store_event st e = st"
    using stale_event_noop by blast
  have c5: "\<forall>e \<in> set es. apply_store_event (apply_events es Map.empty) e = apply_events es Map.empty"
    using reapply_noop by blast
  from c1 c2 c3 c4 c5 show ?thesis by blast
qed


text \<open>
  The claim as written quantifies over every multiset.  A PUT and a DEL of one key that carry
  the same \<open>(version, origin)\<close> (the same leader, the same clock reading) do not
  commute: whichever comes first stays, because the second is not strictly greater.
\<close>

theorem lww_convergence_counterexample:
  "mset [PUT ''users'' ''u1'' ''2024'' [(''name'', JStr ''Ada'')] 5 ''auto'',
         DEL ''users'' ''u1'' ''2024'' 5 ''auto'']
   = mset [DEL ''users'' ''u1'' ''2024'' 5 ''auto'',
           PUT ''users'' ''u1'' ''2024'' [(''name'', JStr ''Ada'')] 5 ''auto'']
   \<and> store_slot (apply_events
         [PUT ''users'' ''u1'' ''2024'' [(''name'', JStr ''Ada'')] 5 ''auto'',
          DEL ''users'' ''u1'' ''2024'' 5 ''auto''] Map.empty) ''users'' ''u1'' ''2024''
       = Some \<lparr>slot_value = [(''name'', JStr ''Ada'')], slot_version = 5,
                slot_origin = ''auto'', slot_deleted = False\<rparr>
   \<and> store_slot (apply_events
         [DEL ''users'' ''u1'' ''2024'' 5 ''auto'',
          PUT ''users'' ''u1'' ''2024'' [(''name'', JStr ''Ada'')] 5 ''auto''] Map.empty)
         ''users'' ''u1'' ''2024''
       = Some \<lparr>slot_value = [], slot_version = 5, slot_origin = ''auto'', slot_deleted = True\<rparr>
   \<and> apply_events
         [PUT ''users'' ''u1'' ''2024'' [(''name'', JStr ''Ada'')] 5 ''auto'',
          DEL ''users'' ''u1'' ''2024'' 5 ''auto''] Map.empty
     \<noteq> apply_events
         [DEL ''users'' ''u1'' ''2024'' 5 ''auto'',
          PUT ''users'' ''u1'' ''2024'' [(''name'', JStr ''Ada'')] 5 ''auto''] Map.empty"
proof -
  let ?p = "PUT ''users'' ''u1'' ''2024'' [(''name'', JStr ''Ada'')] 5 ''auto''"
  let ?d = "DEL ''users'' ''u1'' ''2024'' 5 ''auto''"
  have m: "mset [?p, ?d] = mset [?d, ?p]" by simp
  have a: "store_slot (apply_events [?p, ?d] Map.empty) ''users'' ''u1'' ''2024''
       = Some \<lparr>slot_value = [(''name'', JStr ''Ada'')], slot_version = 5,
                slot_origin = ''auto'', slot_deleted = False\<rparr>"
    by (simp add: apply_events_def store_put_def store_delete_def store_slot_def
        setdefault_table_def tuple_gt_def Let_def prev_val_def)
  have b: "store_slot (apply_events [?d, ?p] Map.empty) ''users'' ''u1'' ''2024''
       = Some \<lparr>slot_value = [], slot_version = 5, slot_origin = ''auto'', slot_deleted = True\<rparr>"
    by (simp add: apply_events_def store_put_def store_delete_def store_slot_def
        setdefault_table_def tuple_gt_def Let_def prev_val_def)
  have ne: "apply_events [?p, ?d] Map.empty \<noteq> apply_events [?d, ?p] Map.empty"
  proof
    assume "apply_events [?p, ?d] Map.empty = apply_events [?d, ?p] Map.empty"
    then have "store_slot (apply_events [?p, ?d] Map.empty) ''users'' ''u1'' ''2024''
      = store_slot (apply_events [?d, ?p] Map.empty) ''users'' ''u1'' ''2024''" by simp
    then show False unfolding a b by simp
  qed
  from m a b ne show ?thesis by (intro conjI)
qed

text \<open>The amended statement at a stream without ties, in two orders.\<close>

theorem lww_convergence_witness:
  "mset [PUT ''users'' ''u1'' ''2024'' [(''name'', JStr ''Ada'')] 5 ''auto'',
         DEL ''users'' ''u1'' ''2024'' 7 ''auto'',
         PUT ''users'' ''u1'' ''2024'' [(''name'', JStr ''Bob'')] 7 ''b'']
   = mset [PUT ''users'' ''u1'' ''2024'' [(''name'', JStr ''Bob'')] 7 ''b'',
           DEL ''users'' ''u1'' ''2024'' 7 ''auto'',
           PUT ''users'' ''u1'' ''2024'' [(''name'', JStr ''Ada'')] 5 ''auto'']
   \<and> ties_agree [PUT ''users'' ''u1'' ''2024'' [(''name'', JStr ''Ada'')] 5 ''auto'',
         DEL ''users'' ''u1'' ''2024'' 7 ''auto'',
         PUT ''users'' ''u1'' ''2024'' [(''name'', JStr ''Bob'')] 7 ''b'']
   \<and> apply_events [PUT ''users'' ''u1'' ''2024'' [(''name'', JStr ''Ada'')] 5 ''auto'',
         DEL ''users'' ''u1'' ''2024'' 7 ''auto'',
         PUT ''users'' ''u1'' ''2024'' [(''name'', JStr ''Bob'')] 7 ''b''] Map.empty
     = apply_events [PUT ''users'' ''u1'' ''2024'' [(''name'', JStr ''Bob'')] 7 ''b'',
           DEL ''users'' ''u1'' ''2024'' 7 ''auto'',
           PUT ''users'' ''u1'' ''2024'' [(''name'', JStr ''Ada'')] 5 ''auto''] Map.empty
   \<and> store_slot (apply_events [PUT ''users'' ''u1'' ''2024'' [(''name'', JStr ''Ada'')] 5 ''auto'',
         DEL ''users'' ''u1'' ''2024'' 7 ''auto'',
         PUT ''users'' ''u1'' ''2024'' [(''name'', JStr ''Bob'')] 7 ''b''] Map.empty)
         ''users'' ''u1'' ''2024''
     = Some \<lparr>slot_value = [(''name'', JStr ''Bob'')], slot_version = 7,
              slot_origin = ''b'', slot_deleted = False\<rparr>"
proof -
  let ?a = "PUT ''users'' ''u1'' ''2024'' [(''name'', JStr ''Ada'')] 5 ''auto''"
  let ?d = "DEL ''users'' ''u1'' ''2024'' 7 ''auto''"
  let ?b = "PUT ''users'' ''u1'' ''2024'' [(''name'', JStr ''Bob'')] 7 ''b''"
  have m: "mset [?a, ?d, ?b] = mset [?b, ?d, ?a]" by simp
  have t: "ties_agree [?a, ?d, ?b]" by (simp add: ties_agree_def)
  have s: "store_slot (apply_events [?a, ?d, ?b] Map.empty) ''users'' ''u1'' ''2024''
     = Some \<lparr>slot_value = [(''name'', JStr ''Bob'')], slot_version = 7,
              slot_origin = ''b'', slot_deleted = False\<rparr>"
    by (simp add: apply_events_def store_put_def store_delete_def store_slot_def
        setdefault_table_def tuple_gt_def Let_def prev_val_def)
  have "ties_agree [?a, ?d, ?b]
      \<longrightarrow> apply_events [?a, ?d, ?b] Map.empty = apply_events [?b, ?d, ?a] Map.empty"
    using lww_convergence[OF m] by (rule conjunct1)
  then have eq: "apply_events [?a, ?d, ?b] Map.empty = apply_events [?b, ?d, ?a] Map.empty"
    using t by (rule mp)
  from m t eq s show ?thesis by (intro conjI)
qed

section \<open>Shard node: publish before apply\<close>


lemma store_delete_prev:
  "fst (store_delete s t pk sk ver org) = store_get s t pk sk"
  by (auto simp: store_delete_def store_get_def store_slot_def setdefault_table_def Let_def
      prev_val_def split: option.splits)


















section \<open>Shard node: DELETE of an absent key\<close>

lemma store_slot_delete_same:
  "store_slot (snd (store_delete s t pk sk ver org)) t pk sk =
     (if (case store_slot s t pk sk of None \<Rightarrow> True
          | Some c \<Rightarrow> tuple_gt (ver, org) (slot_version c, slot_origin c))
      then Some \<lparr>slot_value = [], slot_version = ver, slot_origin = org, slot_deleted = True\<rparr>
      else store_slot s t pk sk)"
  by (auto simp: store_delete_def store_slot_def setdefault_table_def Let_def split: option.splits)

lemma store_delete_stale:
  "\<not> (case store_slot s t pk sk of None \<Rightarrow> True
          | Some c \<Rightarrow> tuple_gt (ver, org) (slot_version c, slot_origin c))
   \<Longrightarrow> snd (store_delete s t pk sk ver org) = s"
  by (auto simp: store_delete_def store_slot_def setdefault_table_def Let_def fun_upd_idem
      split: option.splits)

lemma delete_leader_confirmed:
  assumes "get_role ctx = Leader" "publish_outcome ctx = Confirmed"
  shows "delete ctx t pk sk st =
     ((case store_get (store st) t pk sk of
         None \<Rightarrow> Inl (HTTPException 404)
       | Some v \<Rightarrow> Inr \<lparr>rr_table_name = t, rr_pk = pk, rr_sk = sk,
                        rr_value = Some v, rr_version = Some (time_ns ctx), rr_origin = None\<rparr>),
      \<lparr>store = snd (store_delete (store st) t pk sk (time_ns ctx) (ORIGIN ctx)),
       bus = bus st @ [DEL t pk sk (time_ns ctx) (ORIGIN ctx)], pub_q = pub_q st\<rparr>)"
  using assms store_delete_prev[of "store st" t pk sk "time_ns ctx" "ORIGIN ctx"]
  by (auto simp: delete_def publish_or_503_def publish_def Let_def split: prod.splits option.splits)

text \<open>
  Claim C10, as amended.  A leader DELETE of a key that is absent or tombstoned, whose publish
  is confirmed, answers 404 after it has put a DEL event with the fresh version on the bus.
  When the slot is absent, or the fresh \<open>(version, ORIGIN)\<close> is strictly greater than the
  tombstone's pair, the store now holds a tombstone with the fresh version, and every later
  event of the key that is not strictly greater than it is dropped.  Otherwise the store is
  unchanged.
\<close>

theorem delete_not_found_still_writes:
  assumes "get_role ctx = Leader" and "publish_outcome ctx = Confirmed"
    and "store_get (store st) t pk sk = None"
  shows "fst (delete ctx t pk sk st) = Inl (HTTPException 404)
    \<and> bus (snd (delete ctx t pk sk st)) = bus st @ [DEL t pk sk (time_ns ctx) (ORIGIN ctx)]
    \<and> ((case store_slot (store st) t pk sk of None \<Rightarrow> True
          | Some c \<Rightarrow> tuple_gt (time_ns ctx, ORIGIN ctx) (slot_version c, slot_origin c)) \<longrightarrow>
         store_slot (store (snd (delete ctx t pk sk st))) t pk sk =
           Some \<lparr>slot_value = [], slot_version = time_ns ctx, slot_origin = ORIGIN ctx,
                  slot_deleted = True\<rparr>
         \<and> (\<forall>e. ev_key e = (t, pk, sk) \<and> \<not> tuple_gt (ev_vo e) (time_ns ctx, ORIGIN ctx) \<longrightarrow>
               apply_store_event (store (snd (delete ctx t pk sk st))) e
                 = store (snd (delete ctx t pk sk st))))
    \<and> (\<not> (case store_slot (store st) t pk sk of None \<Rightarrow> True
          | Some c \<Rightarrow> tuple_gt (time_ns ctx, ORIGIN ctx) (slot_version c, slot_origin c)) \<longrightarrow>
         store (snd (delete ctx t pk sk st)) = store st)"
proof -
  let ?st' = "snd (delete ctx t pk sk st)"
  let ?fresh = "case store_slot (store st) t pk sk of None \<Rightarrow> True
          | Some c \<Rightarrow> tuple_gt (time_ns ctx, ORIGIN ctx) (slot_version c, slot_origin c)"
  note d = delete_leader_confirmed[OF assms(1,2), of t pk sk st]
  have r: "fst (delete ctx t pk sk st) = Inl (HTTPException 404)"
    using assms(3) by (simp add: d)
  have b: "bus ?st' = bus st @ [DEL t pk sk (time_ns ctx) (ORIGIN ctx)]"
    by (simp add: d)
  have s: "store ?st' = snd (store_delete (store st) t pk sk (time_ns ctx) (ORIGIN ctx))"
    by (simp add: d)
  have w: "?fresh \<longrightarrow> store_slot (store ?st') t pk sk =
           Some \<lparr>slot_value = [], slot_version = time_ns ctx, slot_origin = ORIGIN ctx,
                  slot_deleted = True\<rparr>
         \<and> (\<forall>e. ev_key e = (t, pk, sk) \<and> \<not> tuple_gt (ev_vo e) (time_ns ctx, ORIGIN ctx) \<longrightarrow>
               apply_store_event (store ?st') e = store ?st')"
  proof
    assume f: ?fresh
    then have sl: "store_slot (store ?st') t pk sk =
           Some \<lparr>slot_value = [], slot_version = time_ns ctx, slot_origin = ORIGIN ctx,
                  slot_deleted = True\<rparr>"
      by (simp add: s store_slot_delete_same)
    have "apply_store_event (store ?st') e = store ?st'"
      if "ev_key e = (t, pk, sk)" "\<not> tuple_gt (ev_vo e) (time_ns ctx, ORIGIN ctx)" for e
      by (rule stale_event_noop[where c = "\<lparr>slot_value = [], slot_version = time_ns ctx,
            slot_origin = ORIGIN ctx, slot_deleted = True\<rparr>"])
         (use that sl in \<open>simp_all add: slot_at_def\<close>)
    with sl show "store_slot (store ?st') t pk sk =
           Some \<lparr>slot_value = [], slot_version = time_ns ctx, slot_origin = ORIGIN ctx,
                  slot_deleted = True\<rparr>
         \<and> (\<forall>e. ev_key e = (t, pk, sk) \<and> \<not> tuple_gt (ev_vo e) (time_ns ctx, ORIGIN ctx) \<longrightarrow>
               apply_store_event (store ?st') e = store ?st')" by blast
  qed
  have n: "\<not> ?fresh \<longrightarrow> store ?st' = store st"
    by (simp add: s store_delete_stale)
  from r b w n show ?thesis by (intro conjI)
qed

text \<open>
  The tombstone is not always replaced: one written with a later version (by another leader or
  by the migration, whose clock is the coordinator's) survives the DELETE, although the DEL
  event is published and the answer is 404.
\<close>

theorem delete_not_found_still_writes_counterexample:
  "store_get [''users'' \<mapsto> [(''u1'', ''2024'') \<mapsto>
        \<lparr>slot_value = [], slot_version = 100, slot_origin = ''migration'', slot_deleted = True\<rparr>]]
      ''users'' ''u1'' ''2024'' = None
   \<and> delete \<lparr>get_role = Leader, get_leader_url = Some ''http://r1'', PROXY_WRITES = True,
            ORIGIN = ''r1'', time_ns = 50, publish_outcome = Confirmed,
            leader_reply = RequestException\<rparr> ''users'' ''u1'' ''2024''
        \<lparr>store = [''users'' \<mapsto> [(''u1'', ''2024'') \<mapsto>
            \<lparr>slot_value = [], slot_version = 100, slot_origin = ''migration'', slot_deleted = True\<rparr>]],
          bus = [], pub_q = []\<rparr>
     = (Inl (HTTPException 404),
        \<lparr>store = [''users'' \<mapsto> [(''u1'', ''2024'') \<mapsto>
            \<lparr>slot_value = [], slot_version = 100, slot_origin = ''migration'', slot_deleted = True\<rparr>]],
          bus = [DEL ''users'' ''u1'' ''2024'' 50 ''r1''], pub_q = []\<rparr>)"
  by (simp add: delete_def publish_or_503_def publish_def store_delete_def store_get_def
      store_slot_def setdefault_table_def tuple_gt_def prev_val_def Let_def fun_upd_idem)

text \<open>A leader DELETE of a key that was never written.\<close>

theorem delete_not_found_still_writes_witness:
  "get_role \<lparr>get_role = Leader, get_leader_url = Some ''http://r1'', PROXY_WRITES = True,
            ORIGIN = ''r1'', time_ns = 50, publish_outcome = Confirmed,
            leader_reply = RequestException\<rparr> = Leader
   \<and> store_get Map.empty ''users'' ''u1'' ''2024'' = None
   \<and> fst (delete \<lparr>get_role = Leader, get_leader_url = Some ''http://r1'', PROXY_WRITES = True,
            ORIGIN = ''r1'', time_ns = 50, publish_outcome = Confirmed,
            leader_reply = RequestException\<rparr> ''users'' ''u1'' ''2024''
        \<lparr>store = Map.empty, bus = [], pub_q = []\<rparr>) = Inl (HTTPException 404)
   \<and> store_slot (store (snd (delete \<lparr>get_role = Leader, get_leader_url = Some ''http://r1'',
            PROXY_WRITES = True, ORIGIN = ''r1'', time_ns = 50, publish_outcome = Confirmed,
            leader_reply = RequestException\<rparr> ''users'' ''u1'' ''2024''
        \<lparr>store = Map.empty, bus = [], pub_q = []\<rparr>))) ''users'' ''u1'' ''2024''
     = Some \<lparr>slot_value = [], slot_version = 50, slot_origin = ''r1'', slot_deleted = True\<rparr>"
  using delete_not_found_still_writes
    [of "\<lparr>get_role = Leader, get_leader_url = Some ''http://r1'', PROXY_WRITES = True,
            ORIGIN = ''r1'', time_ns = 50, publish_outcome = Confirmed,
            leader_reply = RequestException\<rparr>"
        "\<lparr>store = Map.empty, bus = [], pub_q = []\<rparr>" "''users''" "''u1''" "''2024''"]
  by (simp add: store_get_def store_slot_def)

section \<open>Hash ring: bisection\<close>


lemma bisect_from_bounds:
  assumes "lo \<le> hi" "hi \<le> length a" "sorted a"
    and "\<forall>j<lo. a ! j \<le> x" and "\<forall>j. hi \<le> j \<and> j < length a \<longrightarrow> x < a ! j"
  shows "lo \<le> bisect_from a x lo hi \<and> bisect_from a x lo hi \<le> hi
    \<and> (\<forall>j<bisect_from a x lo hi. a ! j \<le> x)
    \<and> (\<forall>j. bisect_from a x lo hi \<le> j \<and> j < length a \<longrightarrow> x < a ! j)"
  using assms
proof (induction a x lo hi rule: bisect_from.induct)
  case (1 a x lo hi)
  let ?mid = "(lo + hi) div 2"
  show ?case
  proof (cases "lo < hi")
    case False
    then have "bisect_from a x lo hi = lo" by (subst bisect_from.simps) simp
    moreover from False "1.prems"(1) have "lo = hi" by simp
    ultimately show ?thesis using "1.prems" by simp
  next
    case lt: True
    then have mid: "lo \<le> ?mid" "?mid < hi" by auto
    show ?thesis
    proof (cases "x < a ! ?mid")
      case True
      have up: "\<forall>j. ?mid \<le> j \<and> j < length a \<longrightarrow> x < a ! j"
      proof (intro allI impI)
        fix j assume j: "?mid \<le> j \<and> j < length a"
        then have "a ! ?mid \<le> a ! j" using \<open>sorted a\<close> by (simp add: sorted_nth_mono)
        with True show "x < a ! j" by simp
      qed
      have "lo \<le> bisect_from a x lo ?mid \<and> bisect_from a x lo ?mid \<le> ?mid
        \<and> (\<forall>j<bisect_from a x lo ?mid. a ! j \<le> x)
        \<and> (\<forall>j. bisect_from a x lo ?mid \<le> j \<and> j < length a \<longrightarrow> x < a ! j)"
        using "1.IH"(1)[OF lt True] mid "1.prems" up by simp
      moreover have "bisect_from a x lo hi = bisect_from a x lo ?mid"
        using lt True by (simp add: bisect_from.simps[of a x lo hi])
      ultimately show ?thesis using mid by simp
    next
      case False
      have low: "\<forall>j<?mid + 1. a ! j \<le> x"
      proof (intro allI impI)
        fix j assume j: "j < ?mid + 1"
        then have "a ! j \<le> a ! ?mid" using \<open>sorted a\<close> mid "1.prems"(2) 
          by (simp add: sorted_nth_mono)
        with False show "a ! j \<le> x" by simp
      qed
      have "?mid + 1 \<le> bisect_from a x (?mid + 1) hi \<and> bisect_from a x (?mid + 1) hi \<le> hi
        \<and> (\<forall>j<bisect_from a x (?mid + 1) hi. a ! j \<le> x)
        \<and> (\<forall>j. bisect_from a x (?mid + 1) hi \<le> j \<and> j < length a \<longrightarrow> x < a ! j)"
        using "1.IH"(2)[OF lt False] mid "1.prems" low by simp
      moreover have "bisect_from a x lo hi = bisect_from a x (?mid + 1) hi"
        using lt False by (simp add: bisect_from.simps[of a x lo hi])
      ultimately show ?thesis using mid by simp
    qed
  qed
qed

lemma bisect_spec:
  assumes "sorted a"
  shows "bisect a x \<le> length a \<and> (\<forall>j<bisect a x. a ! j \<le> x)
    \<and> (\<forall>j. bisect a x \<le> j \<and> j < length a \<longrightarrow> x < a ! j)"
  using bisect_from_bounds[of 0 "length a" a x] assms by (simp add: bisect_def)

lemma bisect_left_from_bounds:
  assumes "lo \<le> hi" "hi \<le> length a" "sorted a"
    and "\<forall>j<lo. a ! j < x" and "\<forall>j. hi \<le> j \<and> j < length a \<longrightarrow> x \<le> a ! j"
  shows "lo \<le> bisect_left_from a x lo hi \<and> bisect_left_from a x lo hi \<le> hi
    \<and> (\<forall>j<bisect_left_from a x lo hi. a ! j < x)
    \<and> (\<forall>j. bisect_left_from a x lo hi \<le> j \<and> j < length a \<longrightarrow> x \<le> a ! j)"
  using assms
proof (induction a x lo hi rule: bisect_left_from.induct)
  case (1 a x lo hi)
  let ?mid = "(lo + hi) div 2"
  show ?case
  proof (cases "lo < hi")
    case False
    then have "bisect_left_from a x lo hi = lo" by (subst bisect_left_from.simps) simp
    moreover from False "1.prems"(1) have "lo = hi" by simp
    ultimately show ?thesis using "1.prems" by simp
  next
    case lt: True
    then have mid: "lo \<le> ?mid" "?mid < hi" by auto
    show ?thesis
    proof (cases "a ! ?mid < x")
      case False
      have up: "\<forall>j. ?mid \<le> j \<and> j < length a \<longrightarrow> x \<le> a ! j"
      proof (intro allI impI)
        fix j assume j: "?mid \<le> j \<and> j < length a"
        then have "a ! ?mid \<le> a ! j" using \<open>sorted a\<close> by (simp add: sorted_nth_mono)
        with False show "x \<le> a ! j" by simp
      qed
      have "lo \<le> bisect_left_from a x lo ?mid \<and> bisect_left_from a x lo ?mid \<le> ?mid
        \<and> (\<forall>j<bisect_left_from a x lo ?mid. a ! j < x)
        \<and> (\<forall>j. bisect_left_from a x lo ?mid \<le> j \<and> j < length a \<longrightarrow> x \<le> a ! j)"
        using "1.IH"(2)[OF lt False] mid "1.prems" up by simp
      moreover have "bisect_left_from a x lo hi = bisect_left_from a x lo ?mid"
        using lt False by (simp add: bisect_left_from.simps[of a x lo hi])
      ultimately show ?thesis using mid by simp
    next
      case True
      have low: "\<forall>j<?mid + 1. a ! j < x"
      proof (intro allI impI)
        fix j assume j: "j < ?mid + 1"
        then have "a ! j \<le> a ! ?mid" using \<open>sorted a\<close> mid "1.prems"(2)
          by (simp add: sorted_nth_mono)
        with True show "a ! j < x" by simp
      qed
      have "?mid + 1 \<le> bisect_left_from a x (?mid + 1) hi \<and> bisect_left_from a x (?mid + 1) hi \<le> hi
        \<and> (\<forall>j<bisect_left_from a x (?mid + 1) hi. a ! j < x)
        \<and> (\<forall>j. bisect_left_from a x (?mid + 1) hi \<le> j \<and> j < length a \<longrightarrow> x \<le> a ! j)"
        using "1.IH"(1)[OF lt True] mid "1.prems" low by simp
      moreover have "bisect_left_from a x lo hi = bisect_left_from a x (?mid + 1) hi"
        using lt True by (simp add: bisect_left_from.simps[of a x lo hi])
      ultimately show ?thesis using mid by simp
    qed
  qed
qed

lemma bisect_left_spec:
  assumes "sorted a"
  shows "bisect_left a x \<le> length a \<and> (\<forall>j<bisect_left a x. a ! j < x)
    \<and> (\<forall>j. bisect_left a x \<le> j \<and> j < length a \<longrightarrow> x \<le> a ! j)"
  using bisect_left_from_bounds[of 0 "length a" a x] assms by (simp add: bisect_left_def)

lemma bisect_left_finds:
  assumes "sorted a" and "x \<in> set a"
  shows "bisect_left a x < length a \<and> a ! bisect_left a x = x"
proof -
  let ?i = "bisect_left a x"
  note sp = bisect_left_spec[OF assms(1), of x]
  from assms(2) obtain m where m: "m < length a" "a ! m = x"
    by (auto simp: in_set_conv_nth)
  have "\<not> m < ?i" using sp m by auto
  then have le: "?i \<le> m" by simp
  with m have lt: "?i < length a" by simp
  have "a ! ?i \<le> a ! m" using assms(1) le m(1) by (simp add: sorted_nth_mono)
  moreover have "x \<le> a ! ?i" using sp lt by auto
  ultimately show ?thesis using m lt by simp
qed

section \<open>Hash ring: lookup\<close>

lemma ring_inv_nonempty: "ring_inv r \<Longrightarrow> sorted_keys r = [] \<longleftrightarrow> ring_tab r = []"
  by (metis ring_inv_def image_is_empty set_empty)

lemma Min_sorted_nth0:
  assumes "sorted a" "a \<noteq> []"
  shows "Min (set a) = a ! 0"
proof (rule Min_eqI)
  show "finite (set a)" by simp
  show "a ! 0 \<in> set a" using assms(2) by simp
  fix y assume "y \<in> set a"
  then obtain j where "j < length a" "a ! j = y" by (auto simp: in_set_conv_nth)
  then show "a ! 0 \<le> y" using assms(1) sorted_nth_mono[of a 0 j] by simp
qed

lemma ring_get_position:
  assumes "sorted (sorted_keys r)" "sorted_keys r \<noteq> []"
  shows "sorted_keys r ! (bisect (sorted_keys r) h mod length (sorted_keys r)) =
     (if \<exists>q \<in> set (sorted_keys r). h < q then Min {q \<in> set (sorted_keys r). h < q}
      else Min (set (sorted_keys r)))"
proof -
  let ?a = "sorted_keys r" and ?i = "bisect (sorted_keys r) h"
  note sp = bisect_spec[OF assms(1), of h]
  show ?thesis
  proof (cases "?i < length ?a")
    case True
    then have gt: "h < ?a ! ?i" using sp by auto
    have mem: "?a ! ?i \<in> {q \<in> set ?a. h < q}" using True gt by simp
    have "Min {q \<in> set ?a. h < q} = ?a ! ?i"
    proof (rule Min_eqI)
      show "finite {q \<in> set ?a. h < q}" by simp
      show "?a ! ?i \<in> {q \<in> set ?a. h < q}" by (rule mem)
      fix y assume "y \<in> {q \<in> set ?a. h < q}"
      then obtain j where j: "j < length ?a" "?a ! j = y" "h < y"
        by (auto simp: in_set_conv_nth)
      have "\<not> j < ?i" using sp j by auto
      then show "?a ! ?i \<le> y" using assms(1) j sorted_nth_mono[of ?a ?i j] by simp
    qed
    moreover have "\<exists>q \<in> set ?a. h < q" using mem by blast
    ultimately show ?thesis using True by simp
  next
    case False
    with sp have eq: "?i = length ?a" by simp
    have "\<not> (\<exists>q \<in> set ?a. h < q)"
    proof
      assume "\<exists>q \<in> set ?a. h < q"
      then obtain j where "j < length ?a" "h < ?a ! j" by (auto simp: in_set_conv_nth)
      with sp eq show False by auto
    qed
    then show ?thesis using eq Min_sorted_nth0[OF assms] by simp
  qed
qed

text \<open>
  Claim C3, as amended.  On a ring that satisfies its representation invariant,
  \<^const>\<open>ring_get\<close> returns \<open>None\<close> iff the ring has no virtual node, and otherwise
  the shard whose virtual node sits at the smallest position strictly greater than
  \<open>H k\<close>, wrapping to the smallest position of all when there is none.
\<close>

theorem ring_get_successor:
  assumes "ring_inv r"
  shows "(ring_get H r k = Inr None \<longleftrightarrow> ring_tab r = [])
    \<and> (ring_tab r \<noteq> [] \<longrightarrow>
         (\<exists>n. ring_get H r k = Inr (Some n)
            \<and> map_of (ring_tab r)
                 (if \<exists>q \<in> fst ` set (ring_tab r). H k < q
                  then Min {q \<in> fst ` set (ring_tab r). H k < q}
                  else Min (fst ` set (ring_tab r))) = Some n))"
proof -
  from assms have srt: "sorted (sorted_keys r)"
    and keys: "set (sorted_keys r) = fst ` set (ring_tab r)"
    by (simp_all add: ring_inv_def)
  let ?p = "sorted_keys r ! (bisect (sorted_keys r) (H k) mod length (sorted_keys r))"
  show ?thesis
  proof (cases "ring_tab r = []")
    case True
    then have "sorted_keys r = []" using ring_inv_nonempty[OF assms] by simp
    with True show ?thesis by (simp add: ring_get_def)
  next
    case False
    then have ne: "sorted_keys r \<noteq> []" using ring_inv_nonempty[OF assms] by simp
    then have "?p \<in> set (sorted_keys r)" by simp
    then have "?p \<in> fst ` set (ring_tab r)" using keys by simp
    then obtain n where n: "map_of (ring_tab r) ?p = Some n"
      by (metis domIff dom_map_of_conv_image_fst not_Some_eq)
    have g: "ring_get H r k = Inr (Some n)"
      using ne n by (simp add: ring_get_def Let_def)
    have pos: "?p = (if \<exists>q \<in> fst ` set (ring_tab r). H k < q
                  then Min {q \<in> fst ` set (ring_tab r). H k < q}
                  else Min (fst ` set (ring_tab r)))"
      using ring_get_position[OF srt ne, of "H k"] unfolding keys .
    from False g n pos show ?thesis by auto
  qed
qed

text \<open>
  The claim as written says \<open>\<ge>\<close>.  \<^verbatim>\<open>bisect.bisect\<close> is \<^verbatim>\<open>bisect_right\<close>: a key
  that hashes exactly onto a virtual node is given to the next one.  Such keys exist for
  every hash function: the key \<^verbatim>\<open>a#0\<close> is the label of the first virtual node of
  shard \<^verbatim>\<open>a\<close>.
\<close>

theorem ring_get_successor_counterexample:
  "ring_init 1 = Inr \<lparr>replicas = 1, ring_tab = [], sorted_keys = []\<rparr>
   \<and> ring_add demo_hash \<lparr>replicas = 1, ring_tab = [], sorted_keys = []\<rparr> (RingNode ''a'')
       = Inr \<lparr>replicas = 1, ring_tab = [(180, RingNode ''a'')], sorted_keys = [180]\<rparr>
   \<and> ring_add demo_hash \<lparr>replicas = 1, ring_tab = [(180, RingNode ''a'')], sorted_keys = [180]\<rparr>
        (RingNode ''b'')
       = Inr \<lparr>replicas = 1, ring_tab = [(180, RingNode ''a''), (181, RingNode ''b'')],
               sorted_keys = [180, 181]\<rparr>
   \<and> demo_hash ''a#0'' = 180
   \<and> ring_get demo_hash
        \<lparr>replicas = 1, ring_tab = [(180, RingNode ''a''), (181, RingNode ''b'')],
          sorted_keys = [180, 181]\<rparr> ''a#0'' = Inr (Some (RingNode ''b''))
   \<and> ring_get_spec demo_hash
        \<lparr>replicas = 1, ring_tab = [(180, RingNode ''a''), (181, RingNode ''b'')],
          sorted_keys = [180, 181]\<rparr> ''a#0'' = Some (RingNode ''a'')"
  by (simp add: ring_init_def ring_add_def add_vnode_def vnode_label_def str_nat.simps
      demo_hash_def ring_get_def ring_get_spec_def bisect_def bisect_from.simps)

text \<open>The amended statement on the ring of two shards with one virtual node each.\<close>

theorem ring_get_successor_witness:
  "ring_inv \<lparr>replicas = 1, ring_tab = [(180, RingNode ''a''), (181, RingNode ''b'')],
          sorted_keys = [180, 181]\<rparr>
   \<and> ring_get demo_hash
        \<lparr>replicas = 1, ring_tab = [(180, RingNode ''a''), (181, RingNode ''b'')],
          sorted_keys = [180, 181]\<rparr> ''a#0'' = Inr (Some (RingNode ''b''))
   \<and> ring_get demo_hash
        \<lparr>replicas = 1, ring_tab = [(180, RingNode ''a''), (181, RingNode ''b'')],
          sorted_keys = [180, 181]\<rparr> ''b#0'' = Inr (Some (RingNode ''a''))"
proof -
  let ?r = "\<lparr>replicas = 1, ring_tab = [(180, RingNode ''a''), (181, RingNode ''b'')],
          sorted_keys = [180, 181]\<rparr>"
  have i: "ring_inv ?r" by (simp add: ring_inv_def)
  have s: "{q. (q = 180 \<or> q = 181) \<and> (180::int) < q} = {181}" by auto
  have a: "ring_get demo_hash ?r ''a#0'' = Inr (Some (RingNode ''b''))"
    using ring_get_successor[OF i, of demo_hash "''a#0''"] by (simp add: demo_hash_def s)
  have b: "ring_get demo_hash ?r ''b#0'' = Inr (Some (RingNode ''a''))"
    using ring_get_successor[OF i, of demo_hash "''b#0''"] by (simp add: demo_hash_def)
  from i a b show ?thesis by (intro conjI)
qed

text \<open>
  The divergence does not depend on the hash function: whatever \<open>H\<close> is, as long as the
  two labels do not collide, the key \<^verbatim>\<open>a#0\<close> is served by shard \<^verbatim>\<open>b\<close>.
\<close>

lemma exact_position_is_skipped:
  assumes "H ''a#0'' \<noteq> H ''b#0''"
  shows "\<exists>r1 r2.
      ring_add H \<lparr>replicas = 1, ring_tab = [], sorted_keys = []\<rparr> (RingNode ''a'') = Inr r1
    \<and> ring_add H r1 (RingNode ''b'') = Inr r2
    \<and> ring_get H r2 ''a#0'' = Inr (Some (RingNode ''b''))
    \<and> ring_get_spec H r2 ''a#0'' = Some (RingNode ''a'')"
proof -
  let ?a = "H ''a#0''" and ?b = "H ''b#0''"
  have r1: "ring_add H \<lparr>replicas = 1, ring_tab = [], sorted_keys = []\<rparr> (RingNode ''a'')
      = Inr \<lparr>replicas = 1, ring_tab = [(?a, RingNode ''a'')], sorted_keys = [?a]\<rparr>"
    by (simp add: ring_add_def add_vnode_def vnode_label_def str_nat.simps)
  have r2: "ring_add H \<lparr>replicas = 1, ring_tab = [(?a, RingNode ''a'')], sorted_keys = [?a]\<rparr>
        (RingNode ''b'')
      = Inr \<lparr>replicas = 1, ring_tab = [(?a, RingNode ''a''), (?b, RingNode ''b'')],
              sorted_keys = (if ?a \<le> ?b then [?a, ?b] else [?b, ?a])\<rparr>"
    using assms by (simp add: ring_add_def add_vnode_def vnode_label_def str_nat.simps)
  have b1: "bisect [?a, ?b] ?a = 1" if "?a < ?b"
    using that by (simp add: bisect_def bisect_from.simps)
  have b2: "bisect [?b, ?a] ?a = 2" if "?b < ?a"
    using that by (simp add: bisect_def bisect_from.simps)
  have g: "ring_get H \<lparr>replicas = 1, ring_tab = [(?a, RingNode ''a''), (?b, RingNode ''b'')],
              sorted_keys = (if ?a \<le> ?b then [?a, ?b] else [?b, ?a])\<rparr> ''a#0''
      = Inr (Some (RingNode ''b''))"
    using assms b1 b2 by (cases "?a < ?b") (simp_all add: ring_get_def Let_def numeral_2_eq_2)
  have s: "ring_get_spec H \<lparr>replicas = 1, ring_tab = [(?a, RingNode ''a''), (?b, RingNode ''b'')],
              sorted_keys = (if ?a \<le> ?b then [?a, ?b] else [?b, ?a])\<rparr> ''a#0''
      = Some (RingNode ''a'')"
    using assms by (cases "?a < ?b") (simp_all add: ring_get_spec_def)
  from r1 r2 g s show ?thesis by blast
qed

section \<open>Hash ring: adding and removing a shard\<close>

lemma update_fresh: "k \<notin> fst ` set al \<Longrightarrow> AList.update k v al = al @ [(k, v)]"
  by (induction al) auto

lemma fold_update_fresh:
  "distinct ks \<Longrightarrow> set ks \<inter> fst ` set al = {} \<Longrightarrow>
   fold (\<lambda>k. AList.update k v) ks al = al @ map (\<lambda>k. (k, v)) ks"
proof (induction ks arbitrary: al)
  case Nil
  show ?case by simp
next
  case (Cons k ks)
  from Cons.prems have k: "k \<notin> fst ` set al" by auto
  have "set ks \<inter> fst ` set (al @ [(k, v)]) = {}" using Cons.prems by auto
  with Cons.IH[of "al @ [(k, v)]"] Cons.prems(1) k show ?case
    by (simp add: update_fresh)
qed

lemma delete_filter: "AList.delete k al = filter (\<lambda>p. fst p \<noteq> k) al"
  by (induction al) auto

lemma pop_sorted:
  assumes "sorted a" "i < length a"
  shows "sorted (take i a @ drop (Suc i) a)"
    and "mset (take i a @ drop (Suc i) a) = mset a - {#a ! i#}"
proof -
  have a: "a = take i a @ a ! i # drop (Suc i) a"
    using assms(2) by (rule id_take_nth_drop)
  have "sorted (take i a @ a ! i # drop (Suc i) a)" using assms(1) a by simp
  then show "sorted (take i a @ drop (Suc i) a)"
    by (auto simp: sorted_append)
  have "mset a = mset (take i a @ drop (Suc i) a) + {#a ! i#}"
    by (subst a) simp
  then show "mset (take i a @ drop (Suc i) a) = mset a - {#a ! i#}" by simp
qed

lemma remove_keys_ok:
  assumes "distinct ks" and "set ks \<subseteq> fst ` set (ring_tab r)"
    and "sorted (sorted_keys r)" and "set ks \<subseteq> set (sorted_keys r)"
  shows "\<exists>S. remove_keys ks r
            = Inr (r\<lparr>ring_tab := filter (\<lambda>p. fst p \<notin> set ks) (ring_tab r), sorted_keys := S\<rparr>)
          \<and> sorted S \<and> mset S = mset (sorted_keys r) - mset ks"
  using assms
proof (induction ks arbitrary: r)
  case Nil
  then show ?case by (intro exI[of _ "sorted_keys r"]) simp
next
  case (Cons k ks)
  let ?a = "sorted_keys r"
  let ?i = "bisect_left ?a k"
  let ?S1 = "take ?i ?a @ drop (Suc ?i) ?a"
  let ?r1 = "r\<lparr>ring_tab := AList.delete k (ring_tab r), sorted_keys := ?S1\<rparr>"
  from Cons.prems have kin: "k \<in> fst ` set (ring_tab r)" and ka: "k \<in> set ?a"
    and kn: "k \<notin> set ks" and dks: "distinct ks" by auto
  from kin have present: "map_of (ring_tab r) k \<noteq> None"
    by (simp add: map_of_eq_None_iff)
  from bisect_left_finds[OF Cons.prems(3) ka] have i: "?i < length ?a" "?a ! ?i = k" by auto
  have step: "remove_keys (k # ks) r = remove_keys ks ?r1"
    using present i by (auto simp: Let_def)
  have s1: "sorted ?S1" and m1: "mset ?S1 = mset ?a - {#k#}"
    using pop_sorted[OF Cons.prems(3) i(1)] i(2) by simp_all
  have tab1: "ring_tab ?r1 = filter (\<lambda>p. fst p \<noteq> k) (ring_tab r)"
    by (simp add: delete_filter)
  have sub1: "set ks \<subseteq> fst ` set (ring_tab ?r1)"
  proof
    fix x assume x: "x \<in> set ks"
    with Cons.prems(2) obtain p where "p \<in> set (ring_tab r)" "fst p = x" by auto
    moreover from x kn have "x \<noteq> k" by auto
    ultimately show "x \<in> fst ` set (ring_tab ?r1)" by (force simp: tab1)
  qed
  have "set ks \<subseteq> set_mset (mset ?a - {#k#})"
  proof
    fix x assume x: "x \<in> set ks"
    then have "x \<in> set ?a" "x \<noteq> k" using Cons.prems(4) kn by auto
    then show "x \<in> set_mset (mset ?a - {#k#})"
      by (simp add: in_diff_count)
  qed
  moreover have "set ?S1 = set_mset (mset ?a - {#k#})"
    using m1 by (metis set_mset_mset)
  ultimately have sub2: "set ks \<subseteq> set (sorted_keys ?r1)"
    by simp
  from Cons.IH[of ?r1, OF dks sub1 _ sub2] s1
  obtain S where S: "remove_keys ks ?r1
            = Inr (?r1\<lparr>ring_tab := filter (\<lambda>p. fst p \<notin> set ks) (ring_tab ?r1), sorted_keys := S\<rparr>)"
      "sorted S" "mset S = mset (sorted_keys ?r1) - mset ks"
    by auto
  have f: "filter (\<lambda>p. fst p \<notin> set ks) (ring_tab ?r1) = filter (\<lambda>p. fst p \<notin> set (k # ks)) (ring_tab r)"
    by (auto simp: tab1 intro: filter_cong)
  have "mset S = mset ?a - mset (k # ks)" using S(3) m1 by simp
  with step S(1,2) f show ?case by (intro exI[of _ S]) simp
qed

lemma fold_add_vnode_eq:
  "fold (add_vnode H node) js r =
     r\<lparr>ring_tab := fold (\<lambda>k. AList.update k node)
                      (map (\<lambda>i. H (vnode_label (url node) i)) js) (ring_tab r),
       sorted_keys := sorted_keys r @ map (\<lambda>i. H (vnode_label (url node) i)) js\<rparr>"
  by (induction js arbitrary: r) (simp_all add: add_vnode_def)

lemma ring_add_fresh:
  assumes "\<not> list_ex (\<lambda>n. url n = s) (map snd (ring_tab r))"
    and "distinct (map (\<lambda>i. H (vnode_label s i)) [0..<replicas r])"
    and "\<forall>i<replicas r. H (vnode_label s i) \<notin> fst ` set (ring_tab r)"
  shows "ring_add H r (RingNode s) =
     Inr (r\<lparr>ring_tab := ring_tab r @ map (\<lambda>k. (k, RingNode s))
                             (map (\<lambda>i. H (vnode_label s i)) [0..<replicas r]),
             sorted_keys := sort (sorted_keys r @ map (\<lambda>i. H (vnode_label s i)) [0..<replicas r])\<rparr>)"
proof -
  let ?ks = "map (\<lambda>i. H (vnode_label s i)) [0..<replicas r]"
  have disj: "set ?ks \<inter> fst ` set (ring_tab r) = {}" using assms(3) by auto
  have "fold (\<lambda>k. AList.update k (RingNode s)) ?ks (ring_tab r)
      = ring_tab r @ map (\<lambda>k. (k, RingNode s)) ?ks"
    by (rule fold_update_fresh[OF assms(2) disj])
  then show ?thesis using assms(1)
    by (simp add: ring_add_def fold_add_vnode_eq Let_def)
qed

text \<open>
  Claim C6.  \<^const>\<open>ring_get\<close> reads the ring and the key and nothing else: it is a
  function of the two, so for fixed membership it is a function of the key.  Adding a shard
  that is not in the ring and removing it again gives back the very ring one started from,
  hence the same answer of \<^const>\<open>ring_get\<close> for every key.  The virtual nodes of the
  new shard are assumed to fall on positions that are free and pairwise different (the
  hash is SHA-256 in the source, and collisions are left unspecified).
\<close>

theorem add_then_remove_restores:
  assumes "ring_inv r"
    and "\<not> list_ex (\<lambda>n. url n = s) (map snd (ring_tab r))"
    and "distinct (map (\<lambda>i. H (vnode_label s i)) [0..<replicas r])"
    and "\<forall>i<replicas r. H (vnode_label s i) \<notin> fst ` set (ring_tab r)"
  shows "\<exists>r1 r2. ring_add H r (RingNode s) = Inr r1 \<and> ring_remove H r1 s = Inr r2
           \<and> r2 = r \<and> (\<forall>k. ring_get H r2 k = ring_get H r k)"
proof -
  let ?ks = "map (\<lambda>i. H (vnode_label s i)) [0..<replicas r]"
  let ?new = "map (\<lambda>k. (k, RingNode s)) ?ks"
  let ?r1 = "r\<lparr>ring_tab := ring_tab r @ ?new, sorted_keys := sort (sorted_keys r @ ?ks)\<rparr>"
  from assms(1) have srt: "sorted (sorted_keys r)" by (simp add: ring_inv_def)
  have add: "ring_add H r (RingNode s) = Inr ?r1"
    by (rule ring_add_fresh[OF assms(2,3,4)])
  have keys_new: "fst ` set ?new = set ?ks" by (simp add: image_image)
  have sub: "set ?ks \<subseteq> fst ` set (ring_tab ?r1)"
    using keys_new by (auto simp: image_Un)
  have "filter (\<lambda>k. map_of (ring_tab ?r1) k \<noteq> None) ?ks = ?ks"
  proof (intro filter_True ballI)
    fix k assume "k \<in> set ?ks"
    with sub have "k \<in> fst ` set (ring_tab ?r1)" by blast
    then show "map_of (ring_tab ?r1) k \<noteq> None" by (metis map_of_eq_None_iff)
  qed
  then have rem: "ring_remove H ?r1 s = remove_keys ?ks ?r1"
    by (simp add: ring_remove_def)
  from remove_keys_ok[OF assms(3) sub, of ] obtain S where
    S: "remove_keys ?ks ?r1
          = Inr (?r1\<lparr>ring_tab := filter (\<lambda>p. fst p \<notin> set ?ks) (ring_tab ?r1), sorted_keys := S\<rparr>)"
       "sorted S" "mset S = mset (sorted_keys ?r1) - mset ?ks"
    by auto
  have "mset S = mset (sorted_keys r)" using S(3) by simp
  then have "sort (sorted_keys r) = S" using S(2) by (rule properties_for_sort)
  then have S_eq: "S = sorted_keys r" using srt by (simp add: sorted_sort_id)
  have old: "filter (\<lambda>p. fst p \<notin> set ?ks) (ring_tab r) = ring_tab r"
  proof (intro filter_True ballI)
    fix p assume "p \<in> set (ring_tab r)"
    then have "fst p \<in> fst ` set (ring_tab r)" by simp
    with assms(4) have "\<forall>i<replicas r. H (vnode_label s i) \<noteq> fst p" by metis
    then show "fst p \<notin> set ?ks" by auto
  qed
  have new: "filter (\<lambda>p. fst p \<notin> set ?ks) ?new = []"
    by (simp add: filter_empty_conv)
  have tab: "filter (\<lambda>p. fst p \<notin> set ?ks) (ring_tab ?r1) = ring_tab r"
    using old new by simp
  have "ring_remove H ?r1 s = Inr r"
    unfolding rem S(1) tab S_eq by simp
  with add show ?thesis by simp
qed

text \<open>Shard \<^verbatim>\<open>c\<close> joins and leaves a ring of one shard with two virtual nodes.\<close>

theorem add_then_remove_restores_witness:
  "ring_inv \<lparr>replicas = 2, ring_tab = [(180, RingNode ''a''), (181, RingNode ''a'')],
             sorted_keys = [180, 181]\<rparr>
   \<and> \<not> list_ex (\<lambda>n. url n = ''c'')
         (map snd [(180::int, RingNode ''a''), (181, RingNode ''a'')])
   \<and> ring_add demo_hash \<lparr>replicas = 2, ring_tab = [(180, RingNode ''a''), (181, RingNode ''a'')],
             sorted_keys = [180, 181]\<rparr> (RingNode ''c'')
      = Inr \<lparr>replicas = 2, ring_tab = [(180, RingNode ''a''), (181, RingNode ''a''),
                                         (182, RingNode ''c''), (183, RingNode ''c'')],
              sorted_keys = [180, 181, 182, 183]\<rparr>
   \<and> ring_remove demo_hash \<lparr>replicas = 2, ring_tab = [(180, RingNode ''a''), (181, RingNode ''a''),
                                         (182, RingNode ''c''), (183, RingNode ''c'')],
              sorted_keys = [180, 181, 182, 183]\<rparr> ''c''
      = Inr \<lparr>replicas = 2, ring_tab = [(180, RingNode ''a''), (181, RingNode ''a'')],
             sorted_keys = [180, 181]\<rparr>"
proof -
  let ?r = "\<lparr>replicas = 2, ring_tab = [(180, RingNode ''a''), (181, RingNode ''a'')],
             sorted_keys = [180, 181]\<rparr>"
  let ?r1 = "\<lparr>replicas = 2, ring_tab = [(180, RingNode ''a''), (181, RingNode ''a''),
                                         (182, RingNode ''c''), (183, RingNode ''c'')],
              sorted_keys = [180, 181, 182, 183]\<rparr>"
  have up: "[0..<2] = [0, 1]" by (simp add: upt_rec)
  have l: "vnode_label ''c'' 0 = ''c#0''" "vnode_label ''c'' 1 = ''c#1''"
    "vnode_label ''c'' (Suc 0) = ''c#1''"
    by (simp_all add: vnode_label_def str_nat.simps)
  have h: "demo_hash ''c#0'' = 182" "demo_hash ''c#1'' = 183"
    by (simp_all add: demo_hash_def)
  have i: "ring_inv ?r" by (simp add: ring_inv_def)
  have n: "\<not> list_ex (\<lambda>n. url n = ''c'') (map snd (ring_tab ?r))" by simp
  have d: "distinct (map (\<lambda>i. demo_hash (vnode_label ''c'' i)) [0..<replicas ?r])"
    by (simp add: up l h)
  have f: "\<forall>i<replicas ?r. demo_hash (vnode_label ''c'' i) \<notin> fst ` set (ring_tab ?r)"
    by (simp add: less_2_cases_iff l h)
  have a: "ring_add demo_hash ?r (RingNode ''c'') = Inr ?r1"
    by (simp add: ring_add_def add_vnode_def up l h)
  from add_then_remove_restores[OF i n d f] a
  have "ring_remove demo_hash ?r1 ''c'' = Inr ?r" by auto
  with i n a show ?thesis by simp
qed

text \<open>
  The representation invariant holds for the empty ring and is kept by adding a new shard and
  by removing a shard, as long as virtual-node positions do not collide.
\<close>

lemma ring_inv_init: "ring_init n = Inr r \<Longrightarrow> ring_inv r"
  by (auto simp: ring_init_def ring_inv_def split: if_splits)

lemma ring_inv_add_fresh:
  assumes "ring_inv r"
    and "\<not> list_ex (\<lambda>n. url n = s) (map snd (ring_tab r))"
    and "distinct (map (\<lambda>i. H (vnode_label s i)) [0..<replicas r])"
    and "\<forall>i<replicas r. H (vnode_label s i) \<notin> fst ` set (ring_tab r)"
  shows "\<exists>r1. ring_add H r (RingNode s) = Inr r1 \<and> ring_inv r1"
proof -
  define ks where "ks = map (\<lambda>i. H (vnode_label s i)) [0..<replicas r]"
  define new where "new = map (\<lambda>k. (k, RingNode s)) ks"
  define r1 where "r1 = r\<lparr>ring_tab := ring_tab r @ new, sorted_keys := sort (sorted_keys r @ ks)\<rparr>"
  from assms(1) have inv: "distinct (sorted_keys r)"
    "set (sorted_keys r) = fst ` set (ring_tab r)" "distinct (map fst (ring_tab r))"
    by (simp_all add: ring_inv_def)
  have dks: "distinct ks" using assms(3) by (simp add: ks_def)
  have disj: "set ks \<inter> fst ` set (ring_tab r) = {}" using assms(4) by (auto simp: ks_def)
  have mf: "map fst new = ks" by (simp add: new_def comp_def)
  then have kn: "fst ` set new = set ks" by (metis set_map)
  have 1: "sorted (sorted_keys r1)" by (simp add: r1_def)
  have 2: "distinct (sorted_keys r1)"
    using inv(1,2) dks disj by (simp add: r1_def Int_commute)
  have 3: "set (sorted_keys r1) = fst ` set (ring_tab r1)"
    using inv(2) kn by (simp add: r1_def image_Un)
  have "set (map fst (ring_tab r)) \<inter> set ks = {}" using disj by (simp add: Int_commute)
  then have 4: "distinct (map fst (ring_tab r1))"
    using inv(3) dks mf by (simp add: r1_def)
  have "ring_inv r1" unfolding ring_inv_def using 1 2 3 4 by (intro conjI)
  moreover have "ring_add H r (RingNode s) = Inr r1"
    using ring_add_fresh[OF assms(2,3,4)] by (simp add: r1_def new_def ks_def)
  ultimately show ?thesis by blast
qed

lemma ring_inv_remove:
  assumes "ring_inv r"
    and "distinct (map (\<lambda>i. H (vnode_label s i)) [0..<replicas r])"
  shows "\<exists>r1. ring_remove H r s = Inr r1 \<and> ring_inv r1"
proof -
  define ks where "ks = filter (\<lambda>k. map_of (ring_tab r) k \<noteq> None)
               (map (\<lambda>i. H (vnode_label s i)) [0..<replicas r])"
  from assms(1) have inv: "sorted (sorted_keys r)" "distinct (sorted_keys r)"
    "set (sorted_keys r) = fst ` set (ring_tab r)" "distinct (map fst (ring_tab r))"
    by (simp_all add: ring_inv_def)
  have d: "distinct ks" unfolding ks_def using assms(2) by (rule distinct_filter)
  have sub: "set ks \<subseteq> fst ` set (ring_tab r)"
    by (auto simp: ks_def map_of_eq_None_iff)
  have sub2: "set ks \<subseteq> set (sorted_keys r)" using sub inv(3) by simp
  from remove_keys_ok[OF d sub inv(1) sub2] obtain S where
    S: "remove_keys ks r
          = Inr (r\<lparr>ring_tab := filter (\<lambda>p. fst p \<notin> set ks) (ring_tab r), sorted_keys := S\<rparr>)"
       "sorted S" "mset S = mset (sorted_keys r) - mset ks"
    by auto
  define r1 where "r1 = r\<lparr>ring_tab := filter (\<lambda>p. fst p \<notin> set ks) (ring_tab r), sorted_keys := S\<rparr>"
  have c_sk: "count (mset (sorted_keys r)) x = (if x \<in> set (sorted_keys r) then 1 else 0)" for x
    using inv(2) by (simp add: distinct_count_atmost_1)
  have c_ks: "count (mset ks) x = (if x \<in> set ks then 1 else 0)" for x
    using d by (simp add: distinct_count_atmost_1)
  have cnt: "count (mset S) x = (if x \<in> set (sorted_keys r) \<and> x \<notin> set ks then 1 else 0)" for x
    using sub2 by (auto simp: S(3) c_sk c_ks)
  have sS: "set S = set (sorted_keys r) - set ks"
  proof (rule set_eqI)
    fix x
    have "x \<in> set S \<longleftrightarrow> 0 < count (mset S) x" by (simp add: count_greater_zero_iff)
    also have "\<dots> \<longleftrightarrow> x \<in> set (sorted_keys r) - set ks" by (simp add: cnt)
    finally show "x \<in> set S \<longleftrightarrow> x \<in> set (sorted_keys r) - set ks" .
  qed
  have dS: "distinct S"
    unfolding distinct_count_atmost_1 by (simp add: cnt sS)
  have "fst ` set (filter (\<lambda>p. fst p \<notin> set ks) (ring_tab r)) = fst ` set (ring_tab r) - set ks"
    by auto
  with sS inv(3) have 3: "set (sorted_keys r1) = fst ` set (ring_tab r1)" by (simp add: r1_def)
  have 4: "distinct (map fst (ring_tab r1))"
    using inv(4) by (simp add: r1_def distinct_map_filter)
  have "sorted (sorted_keys r1)" "distinct (sorted_keys r1)" using S(2) dS by (simp_all add: r1_def)
  then have "ring_inv r1" unfolding ring_inv_def using 3 4 by (intro conjI)
  moreover have "ring_remove H r s = Inr r1" using S(1) by (simp add: ring_remove_def ks_def r1_def)
  ultimately show ?thesis by blast
qed

section \<open>Table registry\<close>

text \<open>
  Claim C8, as amended.  \<^const>\<open>tables_register\<close> stores the definition it is given under
  its table name, replacing whatever was stored there: after a registration the stored
  definition of that name is the one just registered, and the definitions of all other names
  are untouched.  The stored definition stays the same only when the same definition is
  registered again.
\<close>

theorem table_registration_overwrites:
  "tables_get (snd (tables_register reg t)) (td_table_name t) = Inr t
   \<and> (\<forall>n. n \<noteq> td_table_name t \<longrightarrow>
         tables_get (snd (tables_register reg t)) n = tables_get reg n)
   \<and> (tables_get reg (td_table_name t) = Inr t \<longrightarrow>
         tables_get (snd (tables_register reg t)) (td_table_name t) = tables_get reg (td_table_name t))"
  by (simp add: tables_register_def tables_get_def update_conv')

text \<open>
  Table definitions are not immutable: registering \<^verbatim>\<open>users\<close> a second time with
  another partition key replaces the first definition.
\<close>

theorem table_registration_overwrites_counterexample:
  "register_table [] \<lparr>td_table_name = ''users'', td_partition_key = ''id'', td_sort_key = ''ts''\<rparr>
     = (Inr \<lparr>td_table_name = ''users'', td_partition_key = ''id'', td_sort_key = ''ts''\<rparr>,
        [(''users'', \<lparr>td_table_name = ''users'', td_partition_key = ''id'', td_sort_key = ''ts''\<rparr>)])
   \<and> tables_get
        (snd (register_table
           [(''users'', \<lparr>td_table_name = ''users'', td_partition_key = ''id'', td_sort_key = ''ts''\<rparr>)]
           \<lparr>td_table_name = ''users'', td_partition_key = ''email'', td_sort_key = ''ts''\<rparr>))
        ''users''
     = Inr \<lparr>td_table_name = ''users'', td_partition_key = ''email'', td_sort_key = ''ts''\<rparr>
   \<and> \<lparr>td_table_name = ''users'', td_partition_key = ''email'', td_sort_key = ''ts''\<rparr>
     \<noteq> \<lparr>td_table_name = ''users'', td_partition_key = ''id'', td_sort_key = ''ts''\<rparr>"
  by (simp add: register_table_def tables_register_def tables_get_def)

text \<open>Re-registering \<^verbatim>\<open>users\<close> leaves \<^verbatim>\<open>orders\<close> alone.\<close>

theorem table_registration_overwrites_witness:
  "''orders'' \<noteq> td_table_name
        \<lparr>td_table_name = ''users'', td_partition_key = ''email'', td_sort_key = ''ts''\<rparr>
   \<and> tables_get
        (snd (tables_register
           [(''users'', \<lparr>td_table_name = ''users'', td_partition_key = ''id'', td_sort_key = ''ts''\<rparr>),
            (''orders'', \<lparr>td_table_name = ''orders'', td_partition_key = ''oid'', td_sort_key = ''ts''\<rparr>)]
           \<lparr>td_table_name = ''users'', td_partition_key = ''email'', td_sort_key = ''ts''\<rparr>))
        ''orders''
     = Inr \<lparr>td_table_name = ''orders'', td_partition_key = ''oid'', td_sort_key = ''ts''\<rparr>
   \<and> tables_get
        (snd (tables_register
           [(''users'', \<lparr>td_table_name = ''users'', td_partition_key = ''id'', td_sort_key = ''ts''\<rparr>),
            (''orders'', \<lparr>td_table_name = ''orders'', td_partition_key = ''oid'', td_sort_key = ''ts''\<rparr>)]
           \<lparr>td_table_name = ''users'', td_partition_key = ''email'', td_sort_key = ''ts''\<rparr>))
        ''users''
     = Inr \<lparr>td_table_name = ''users'', td_partition_key = ''email'', td_sort_key = ''ts''\<rparr>"
  using table_registration_overwrites
    [of "[(''users'', \<lparr>td_table_name = ''users'', td_partition_key = ''id'', td_sort_key = ''ts''\<rparr>),
            (''orders'', \<lparr>td_table_name = ''orders'', td_partition_key = ''oid'', td_sort_key = ''ts''\<rparr>)]"
        "\<lparr>td_table_name = ''users'', td_partition_key = ''email'', td_sort_key = ''ts''\<rparr>"]
  by (simp add: tables_get_def)

section \<open>Replica registry: election by registration\<close>

text \<open>
  When the recorded leader URL is a non-empty string whose record carries the role leader,
  \<^const>\<open>replica_register\<close> assigns the role leader exactly when the shard has no active
  leader at the time of the call or the registrant is the recorded leader; otherwise it
  assigns follower, whatever role was requested.
\<close>

lemma register_assigned_role:
  assumes "leader_recorded_ok reg shard_name"
  shows "\<exists>a l reg'. replica_register reg now now_active shard_name u rid req = Inr ((a, l), reg')
     \<and> (a = Leader \<longleftrightarrow>
           leader_url reg now_active shard_name = None
         \<or> reg_leader_url reg shard_name = Some (rstrip_slash u))
     \<and> (a \<noteq> Leader \<longrightarrow> a = Follower)"
proof (cases "reg_leader_url reg shard_name")
  case None
  then show ?thesis
    by (simp add: replica_register_def leader_url_def Let_def)
next
  case (Some l)
  with assms have l: "l \<noteq> []"
    and rl: "\<And>info. map_of (shard_replicas reg shard_name) l = Some info \<Longrightarrow> ri_role info = Leader"
    by (auto simp: leader_recorded_ok_def split: option.splits)
  show ?thesis
  proof (cases "is_active reg now_active shard_name l")
    case False
    with Some l show ?thesis
      by (simp add: replica_register_def leader_url_def Let_def)
  next
    case True
    then obtain info where info: "map_of (shard_replicas reg shard_name) l = Some info"
      by (auto simp: is_active_def split: option.splits)
    with rl have "ri_role info = Leader" by simp
    with Some l True info show ?thesis
      by (auto simp: replica_register_def leader_url_def Let_def split: option.splits)
  qed
qed

text \<open>
  Registrations keep that condition as long as the registrant's canonical URL is not empty.
\<close>

lemma register_keeps_leader_recorded_ok_aux:
  assumes "leader_recorded_ok reg shard_name" and "rstrip_slash u \<noteq> []"
  shows "case replica_register reg now now_active shard_name u rid req of
           Inl e \<Rightarrow> False
         | Inr (res, reg') \<Rightarrow> leader_recorded_ok reg' shard_name"
proof (cases "reg_leader_url reg shard_name")
  case None
  with assms(2) show ?thesis
    by (simp add: replica_register_def leader_recorded_ok_def shard_replicas_def Let_def
        update_conv')
next
  case (Some l)
  with assms(1) have l: "l \<noteq> []"
    and rl: "\<And>info. map_of (shard_replicas reg shard_name) l = Some info \<Longrightarrow> ri_role info = Leader"
    by (auto simp: leader_recorded_ok_def split: option.splits)
  show ?thesis
  proof (cases "is_active reg now_active shard_name l")
    case False
    with Some l assms(2) show ?thesis
      by (simp add: replica_register_def leader_recorded_ok_def shard_replicas_def Let_def
          update_conv')
  next
    case True
    then obtain info where info: "map_of (shard_replicas reg shard_name) l = Some info"
      by (auto simp: is_active_def split: option.splits)
    with rl have "ri_role info = Leader" by simp
    with Some l True info show ?thesis
      by (auto simp: replica_register_def leader_recorded_ok_def shard_replicas_def Let_def
          update_conv' split: option.splits)
  qed
qed

lemma register_keeps_leader_recorded_ok:
  assumes "leader_recorded_ok reg shard_name" and "rstrip_slash u \<noteq> []"
    and "replica_register reg now now_active shard_name u rid req = Inr (res, reg')"
  shows "leader_recorded_ok reg' shard_name"
  using register_keeps_leader_recorded_ok_aux[OF assms(1,2), of now now_active rid req] assms(3)
  by simp

text \<open>
  Claim C4.  The condition can be broken from outside: the URL \<^verbatim>\<open>/\<close> passes the request
  model (\<^verbatim>\<open>min_length=1\<close>) and is canonicalised to the empty string.  The first replica
  that registers with it becomes leader under the empty URL.  The test
  \<^verbatim>\<open>if leader and not self._is_active(...)\<close> treats the empty string like \<^verbatim>\<open>None\<close> and
  never clears it, while \<^verbatim>\<open>leader is None\<close> is false: long after the TTL, with
  \<^const>\<open>leader_url\<close> reporting no leader, another replica that asks for the role
  leader is still made a follower.
\<close>

theorem empty_url_leader_is_never_replaced:
  "replica_register
      \<lparr>ttl_sec = 30, reg_replicas = Map.empty, reg_leader_url = Map.empty, reg_rr_idx = Map.empty\<rparr>
      0 0 ''s1'' ''/'' None Auto
    = Inr ((Leader, ''''),
        \<lparr>ttl_sec = 30,
          reg_replicas = [''s1'' \<mapsto> [('''', \<lparr>ri_shard_name = ''s1'', ri_replica_url = '''',
              ri_replica_id = None, ri_role = Leader, ri_last_seen_unix = 0\<rparr>)]],
          reg_leader_url = [''s1'' \<mapsto> ''''], reg_rr_idx = Map.empty\<rparr>)
   \<and> leader_url
        \<lparr>ttl_sec = 30,
          reg_replicas = [''s1'' \<mapsto> [('''', \<lparr>ri_shard_name = ''s1'', ri_replica_url = '''',
              ri_replica_id = None, ri_role = Leader, ri_last_seen_unix = 0\<rparr>)]],
          reg_leader_url = [''s1'' \<mapsto> ''''], reg_rr_idx = Map.empty\<rparr> 100 ''s1'' = None
   \<and> map_sum id fst (replica_register
        \<lparr>ttl_sec = 30,
          reg_replicas = [''s1'' \<mapsto> [('''', \<lparr>ri_shard_name = ''s1'', ri_replica_url = '''',
              ri_replica_id = None, ri_role = Leader, ri_last_seen_unix = 0\<rparr>)]],
          reg_leader_url = [''s1'' \<mapsto> ''''], reg_rr_idx = Map.empty\<rparr>
        100 100 ''s1'' ''http://r2:8080'' None Leader)
     = Inr (Follower, '''')"
  by (simp add: replica_register_def leader_url_def is_active_def shard_replicas_def
      rstrip_slash_def Let_def)

section \<open>Routing tier: exists\<close>

lemma poll_followers_found:
  "fst (poll_followers ask leader reps) \<longleftrightarrow>
     (\<exists>rep \<in> set reps. ri_replica_url rep \<noteq> leader
        \<and> exists_call ask (ri_replica_url rep) = Some True)"
  by (induction reps) (auto split: prod.splits)

lemma poll_followers_asked:
  "set (snd (poll_followers ask leader reps)) \<subseteq> ri_replica_url ` set reps - {leader}"
  by (induction reps) (auto split: prod.splits)

lemma leader_url_nonempty: "leader_url reg now shard_name = Some l \<Longrightarrow> l \<noteq> []"
  by (auto simp: leader_url_def split: option.splits if_splits)

text \<open>
  Claim C9.  For a registered table whose key resolves to a shard with an active leader:
  when the call to the leader raises, the answer is 503 and the leader is the only replica
  that was asked; when the leader says true, the answer is true; when the leader says false,
  the answer is true iff some other active replica of the shard says true (a follower whose
  call raises counts as not saying true).
\<close>

theorem exists_asks_leader_first:
  assumes "tables_exists (tables c) table_name"
    and "pick_shard_name H c pk = Inr shard_name"
    and "leader_url (registry c) now shard_name = Some leader"
  shows "(exists_call ask leader = None \<longrightarrow>
            exists_record H ask now now2 c table_name pk sk = (Inl (HTTPException 503), [leader]))
    \<and> (exists_call ask leader = Some True \<longrightarrow>
            exists_record H ask now now2 c table_name pk sk = (Inr True, [leader]))
    \<and> (exists_call ask leader = Some False \<longrightarrow>
            fst (exists_record H ask now now2 c table_name pk sk)
              = Inr (\<exists>rep \<in> set (active_replicas (registry c) now2 shard_name).
                       ri_replica_url rep \<noteq> leader
                     \<and> exists_call ask (ri_replica_url rep) = Some True))"
proof -
  from assms(3) have l: "leader_url_or_503 (registry c) now shard_name = Inr leader"
    using leader_url_nonempty[OF assms(3)] by (simp add: leader_url_or_503_def)
  have a: "exists_call ask leader = None \<longrightarrow>
            exists_record H ask now now2 c table_name pk sk = (Inl (HTTPException 503), [leader])"
    using assms(1,2) l by (simp add: exists_record_def)
  have b: "exists_call ask leader = Some True \<longrightarrow>
            exists_record H ask now now2 c table_name pk sk = (Inr True, [leader])"
    using assms(1,2) l by (simp add: exists_record_def)
  have c: "exists_call ask leader = Some False \<longrightarrow>
            fst (exists_record H ask now now2 c table_name pk sk)
              = Inr (\<exists>rep \<in> set (active_replicas (registry c) now2 shard_name).
                       ri_replica_url rep \<noteq> leader
                     \<and> exists_call ask (ri_replica_url rep) = Some True)"
    using assms(1,2) l
      poll_followers_found[of ask leader "active_replicas (registry c) now2 shard_name"]
    by (simp add: exists_record_def case_prod_beta)
  from a b c show ?thesis by (intro conjI)
qed


lemma demo_pick_shard: "pick_shard_name demo_hash demo_coordinator k = Inr ''s1''"
  by (simp add: pick_shard_name_def pick_shard_name_from_ring_def ring_get_def
      demo_coordinator_def demo_ring_def)

lemma demo_leader: "leader_url demo_registry 10 ''s1'' = Some ''http://r1''"
  by (simp add: leader_url_def is_active_def shard_replicas_def demo_registry_def)

text \<open>The leader says false and the follower \<^verbatim>\<open>http://r2\<close> says true.\<close>

theorem exists_asks_leader_first_witness:
  "tables_exists (tables demo_coordinator) ''users''
   \<and> pick_shard_name demo_hash demo_coordinator ''u1'' = Inr ''s1''
   \<and> leader_url (registry demo_coordinator) 10 ''s1'' = Some ''http://r1''
   \<and> exists_call (\<lambda>u. if u = ''http://r1'' then ExistsReply 200 (Some False)
                          else ExistsReply 200 (Some True)) ''http://r1'' = Some False
   \<and> fst (exists_record demo_hash
            (\<lambda>u. if u = ''http://r1'' then ExistsReply 200 (Some False)
                  else ExistsReply 200 (Some True))
            10 11 demo_coordinator ''users'' ''u1'' ''2024'') = Inr True"
proof -
  let ?ask = "\<lambda>u. if u = ''http://r1'' then ExistsReply 200 (Some False)
                  else ExistsReply 200 (Some True)"
  have t: "tables_exists (tables demo_coordinator) ''users''"
    by (simp add: tables_exists_def demo_coordinator_def)
  have p: "pick_shard_name demo_hash demo_coordinator ''u1'' = Inr ''s1''"
    by (rule demo_pick_shard)
  have l: "leader_url (registry demo_coordinator) 10 ''s1'' = Some ''http://r1''"
    using demo_leader by (simp add: demo_coordinator_def)
  have e: "exists_call ?ask ''http://r1'' = Some False"
    by (simp add: exists_call_def rstrip_slash_def)
  have f: "exists_call ?ask ''http://r2'' = Some True"
    by (simp add: exists_call_def rstrip_slash_def)
  have a: "active_replicas (registry demo_coordinator) 11 ''s1''
      = map snd (the (reg_replicas demo_registry ''s1''))"
    by (simp add: active_replicas_def shard_replicas_def demo_coordinator_def demo_registry_def)
  have "\<exists>rep \<in> set (active_replicas (registry demo_coordinator) 11 ''s1'').
          ri_replica_url rep \<noteq> ''http://r1'' \<and> exists_call ?ask (ri_replica_url rep) = Some True"
    unfolding a using f by (simp add: demo_registry_def)
  then have "fst (exists_record demo_hash ?ask 10 11 demo_coordinator ''users'' ''u1'' ''2024'')
      = Inr True"
    using exists_asks_leader_first[OF t p l, of ?ask 11 "''2024''"] e by simp
  with t p l e show ?thesis by (intro conjI)
qed

section \<open>Routing tier: delete\<close>










section \<open>Routing tier: read with fallback to the old owner\<close>

text \<open>
  The registration of the first replica of the first shard puts the shard into the ring and
  starts a migration whose snapshot is the empty ring.
\<close>

lemma first_registration_starts_migration:
  "register_replica demo_hash 0 0 0 fresh_coordinator
      \<lparr>rq_shard_name = ''s1'', rq_replica_url = ''http://r1'', rq_replica_id = None,
        rq_role = Auto\<rparr>
   = (Inr \<lparr>rs_shard_name = ''s1'', rs_assigned_role = Leader, rs_leader_url = ''http://r1''\<rparr>,
      first_shard_coordinator)"
proof -
  have r: "replica_register (registry fresh_coordinator) 0 0 ''s1'' ''http://r1'' None Auto
    = Inr ((Leader, ''http://r1''), registry first_shard_coordinator)"
    by (simp add: replica_register_def fresh_coordinator_def first_shard_coordinator_def
        shard_replicas_def rstrip_slash_def Let_def)
  have l: "leader_url (registry first_shard_coordinator) 0 ''s1'' = Some ''http://r1''"
    by (simp add: leader_url_def is_active_def shard_replicas_def first_shard_coordinator_def)
  have a: "ring_add demo_hash (ring fresh_coordinator) (RingNode ''s1'')
    = Inr (ring first_shard_coordinator)"
    by (simp add: ring_add_def add_vnode_def vnode_label_def str_nat.simps demo_hash_def
        fresh_coordinator_def first_shard_coordinator_def)
  have n0: "nodes (ring fresh_coordinator) = []"
    by (simp add: nodes_def fresh_coordinator_def)
  have n1: "nodes (ring first_shard_coordinator) = [RingNode ''s1'']"
    by (simp add: nodes_def first_shard_coordinator_def)
  show ?thesis
    unfolding register_replica_def
    by (simp add: r l a n0 n1 Let_def)
       (simp add: fresh_coordinator_def first_shard_coordinator_def)
qed


text \<open>
  That migration has no shard to ask: the worker clears the flags without waiting for anyone,
  and a read that finds nothing is then answered 200 with a null value.
\<close>

lemma first_migration_ends_at_once:
  "migrate_background_sources (registry first_shard_coordinator) clock
      \<lparr>replicas = 1, ring_tab = [], sorted_keys = []\<rparr> = []
   \<and> fst (read_record demo_hash (\<lambda>u. Reply 404 None) 1 1
          (migrate_background_finally first_shard_coordinator) ''users'' ''u1'' ''2024'')
       = Inr (not_found_record ''users'' ''u1'' ''2024'' ''http://r1'')"
proof -
  let ?c = "migrate_background_finally first_shard_coordinator"
  have s: "migrate_background_sources (registry first_shard_coordinator) clock
      \<lparr>replicas = 1, ring_tab = [], sorted_keys = []\<rparr> = []"
    by (simp add: migrate_background_sources_def nodes_def List.map_filter_def)
  have t: "tables_exists (tables ?c) ''users''"
    by (simp add: tables_exists_def first_shard_coordinator_def migrate_background_finally_def)
  have p: "pick_shard_name demo_hash ?c ''u1'' = Inr ''s1''"
    by (simp add: pick_shard_name_def pick_shard_name_from_ring_def ring_get_def demo_hash_def
        bisect_def bisect_from.simps first_shard_coordinator_def migrate_background_finally_def)
  have a: "active_replicas (registry ?c) 1 ''s1''
     = [\<lparr>ri_shard_name = ''s1'', ri_replica_url = ''http://r1'',
         ri_replica_id = None, ri_role = Leader, ri_last_seen_unix = 0\<rparr>]"
    by (simp add: active_replicas_def shard_replicas_def first_shard_coordinator_def
        migrate_background_finally_def)
  have ru: "fst (read_url (registry ?c) 1 ''s1'') = Inr ''http://r1''"
    by (simp add: read_url_def pick_read_replica_def a Let_def)
  obtain reg1 where ru': "read_url (registry ?c) 1 ''s1'' = (Inr ''http://r1'', reg1)"
    using ru by (cases "read_url (registry ?c) 1 ''s1''") simp
  have m: "\<not> migration_in_progress ?c"
    by (simp add: migrate_background_finally_def)
  have "fst (read_record demo_hash (\<lambda>u. Reply 404 None) 1 1 ?c ''users'' ''u1'' ''2024'')
       = Inr (not_found_record ''users'' ''u1'' ''2024'' ''http://r1'')"
    using m by (simp add: read_record_def t p ru' read_fallback_def)
  with s show ?thesis by (intro conjI)
qed

text \<open>
  The registration of a third shard while the replica of \<^verbatim>\<open>s1\<close> is silent starts a
  migration in which the worker skips \<^verbatim>\<open>s1\<close> and asks the leader of \<^verbatim>\<open>s2\<close> for its keys;
  the flags stay set while it waits for the answers.
\<close>

lemma third_shard_registration_starts_migration:
  "register_replica demo_hash 100 100 100 two_shard_coordinator
      \<lparr>rq_shard_name = ''s0'', rq_replica_url = ''http://r0'', rq_replica_id = None,
        rq_role = Auto\<rparr>
   = (Inr \<lparr>rs_shard_name = ''s0'', rs_assigned_role = Leader, rs_leader_url = ''http://r0''\<rparr>,
      waiting_migration_coordinator)"
proof -
  have r: "replica_register (registry two_shard_coordinator) 100 100 ''s0'' ''http://r0'' None Auto
    = Inr ((Leader, ''http://r0''), registry waiting_migration_coordinator)"
    by (simp add: replica_register_def two_shard_coordinator_def waiting_migration_coordinator_def
        shard_replicas_def rstrip_slash_def Let_def)
  have l: "leader_url (registry waiting_migration_coordinator) 100 ''s0'' = Some ''http://r0''"
    by (simp add: leader_url_def is_active_def shard_replicas_def waiting_migration_coordinator_def)
  have a: "ring_add demo_hash (ring two_shard_coordinator) (RingNode ''s0'')
    = Inr (ring waiting_migration_coordinator)"
    by (simp add: ring_add_def add_vnode_def vnode_label_def str_nat.simps demo_hash_def
        two_shard_coordinator_def waiting_migration_coordinator_def)
  have n0: "nodes (ring two_shard_coordinator) = [RingNode ''s1'', RingNode ''s2'']"
    by (simp add: nodes_def two_shard_coordinator_def)
  have n1: "nodes (ring waiting_migration_coordinator)
    = [RingNode ''s0'', RingNode ''s1'', RingNode ''s2'']"
    by (simp add: nodes_def waiting_migration_coordinator_def)
  show ?thesis
    unfolding register_replica_def
    by (simp add: r l a n0 n1 Let_def)
       (simp add: two_shard_coordinator_def waiting_migration_coordinator_def
          ring_add_def add_vnode_def vnode_label_def str_nat.simps demo_hash_def)
qed

lemma waiting_migration_sources:
  "migrate_background_sources (registry waiting_migration_coordinator) (\<lambda>s. 100)
      \<lparr>replicas = 1, ring_tab = [(247, RingNode ''s1''), (248, RingNode ''s2'')],
        sorted_keys = [247, 248]\<rparr>
   = [''http://r2'']"
  by (simp add: migrate_background_sources_def nodes_def List.map_filter_def leader_url_def
      is_active_def shard_replicas_def waiting_migration_coordinator_def)

lemma forward_record_not_404: "status_of (forward_record code body u) \<noteq> 404"
  by (simp add: forward_record_def status_of_def split: option.splits)

lemma pick_shard_status:
  "pick_shard_name_from_ring H r pk = Inl e \<Longrightarrow> status_code e \<noteq> 404"
  by (auto simp: pick_shard_name_from_ring_def split: sum.splits option.splits)

lemma read_url_status: "read_url reg now s = (Inl e, reg') \<Longrightarrow> status_code e \<noteq> 404"
  by (auto simp: read_url_def split: prod.splits option.splits if_splits)

lemma read_fallback_not_404:
  "status_of (fst (read_fallback H fetch now2 c t pk sk ps primary)) \<noteq> 404"
proof (cases "if migration_in_progress c then old_ring c else None")
  case None
  then show ?thesis by (simp add: read_fallback_def status_of_def)
next
  case (Some oldr)
  show ?thesis
  proof (cases "pick_shard_name_from_ring H oldr pk")
    case (Inl e)
    with Some pick_shard_status[OF Inl] show ?thesis
      by (simp add: read_fallback_def status_of_def)
  next
    case (Inr os)
    show ?thesis
    proof (cases "os = ps")
      case True
      with Some Inr show ?thesis by (simp add: read_fallback_def status_of_def)
    next
      case False
      obtain res reg' where ru: "read_url (registry c) now2 os = (res, reg')"
        by (cases "read_url (registry c) now2 os")
      show ?thesis
      proof (cases res)
        case (Inl e)
        with Some Inr False ru read_url_status[of "registry c" now2 os e reg'] show ?thesis
          by (simp add: read_fallback_def status_of_def)
      next
        case fb: (Inr fallback)
        show ?thesis
        proof (cases "fetch fallback")
          case RequestException
          with Some Inr False ru fb show ?thesis
            by (simp add: read_fallback_def status_of_def)
        next
          case (Reply code2 body2)
          with Some Inr False ru fb forward_record_not_404[of code2 body2 fallback] show ?thesis
            by (simp add: read_fallback_def) (simp add: status_of_def)
        qed
      qed
    qed
  qed
qed

lemma read_record_not_404:
  assumes "tables_exists (tables c) t"
  shows "status_of (fst (read_record H fetch now now2 c t pk sk)) \<noteq> 404"
proof (cases "pick_shard_name H c pk")
  case (Inl e)
  with assms pick_shard_status[of H "ring c" pk e] show ?thesis
    by (simp add: read_record_def status_of_def pick_shard_name_def)
next
  case (Inr ps)
  obtain res reg' where ru: "read_url (registry c) now ps = (res, reg')"
    by (cases "read_url (registry c) now ps")
  show ?thesis
  proof (cases res)
    case (Inl e)
    with assms Inr ru read_url_status[of "registry c" now ps e reg'] show ?thesis
      by (simp add: read_record_def status_of_def)
  next
    case p: (Inr primary)
    show ?thesis
    proof (cases "fetch primary")
      case RequestException
      with assms Inr ru p show ?thesis by (simp add: read_record_def status_of_def)
    next
      case (Reply code body)
      with assms Inr ru p forward_record_not_404[of code body primary]
        read_fallback_not_404[of H fetch now2 "c\<lparr>registry := reg'\<rparr>" t pk sk ps primary]
      show ?thesis by (simp add: read_record_def)
    qed
  qed
qed

lemma read_record_primary_404:
  assumes "tables_exists (tables c) t" and "pick_shard_name H c pk = Inr ps"
    and "read_url (registry c) now ps = (Inr primary, reg1)"
    and "fetch primary = Reply 404 body"
  shows "read_record H fetch now now2 c t pk sk
     = read_fallback H fetch now2 (c\<lparr>registry := reg1\<rparr>) t pk sk ps primary"
  using assms by (simp add: read_record_def)

text \<open>
  Claim C5, as amended.  Let the table be registered and let the replica picked for the
  computed owner report not-found.  Without a migration in progress, or when the old owner
  computed from the snapshot is the computed owner itself, the answer is 200 with a null
  value and only the first replica was queried.  With a migration in progress and an old
  owner that is another shard with an active replica, that replica is queried as well: its
  record is served if it answers with one, and if it reports not-found too the answer is
  200 with a null value.  The answer to a read of a registered table is never 404.
\<close>

theorem read_record_fallback:
  assumes "tables_exists (tables c) t" and "pick_shard_name H c pk = Inr ps"
    and "read_url (registry c) now ps = (Inr primary, reg1)"
    and "fetch primary = Reply 404 body"
  shows "((\<not> migration_in_progress c \<or> old_ring c = None) \<longrightarrow>
           read_record H fetch now now2 c t pk sk
             = (Inr (not_found_record t pk sk primary), [primary], c\<lparr>registry := reg1\<rparr>))
    \<and> (\<forall>oldr. migration_in_progress c \<and> old_ring c = Some oldr \<longrightarrow>
          (pick_shard_name_from_ring H oldr pk = Inr ps \<longrightarrow>
             read_record H fetch now now2 c t pk sk
               = (Inr (not_found_record t pk sk primary), [primary], c\<lparr>registry := reg1\<rparr>))
        \<and> (\<forall>os fb reg2.
              pick_shard_name_from_ring H oldr pk = Inr os \<and> os \<noteq> ps
              \<and> read_url reg1 now2 os = (Inr fb, reg2) \<longrightarrow>
                fst (snd (read_record H fetch now now2 c t pk sk)) = [primary, fb]
              \<and> (\<forall>code d. fetch fb = Reply code (Some d) \<and> code \<noteq> 404
                     \<and> \<not> (400 \<le> code \<and> code < 600) \<longrightarrow>
                    fst (read_record H fetch now now2 c t pk sk) = Inr (with_shard_url d fb))
              \<and> (\<forall>b. fetch fb = Reply 404 b \<longrightarrow>
                    fst (read_record H fetch now now2 c t pk sk)
                      = Inr (not_found_record t pk sk primary))))
    \<and> status_of (fst (read_record H fetch now now2 c t pk sk)) \<noteq> 404"
proof -
  note eq = read_record_primary_404[where fetch = fetch and ?now2.0 = now2 and sk = sk, OF assms]
  have a: "(\<not> migration_in_progress c \<or> old_ring c = None) \<longrightarrow>
           read_record H fetch now now2 c t pk sk
             = (Inr (not_found_record t pk sk primary), [primary], c\<lparr>registry := reg1\<rparr>)"
    by (auto simp: eq read_fallback_def)
  have b: "\<forall>oldr. migration_in_progress c \<and> old_ring c = Some oldr \<longrightarrow>
          (pick_shard_name_from_ring H oldr pk = Inr ps \<longrightarrow>
             read_record H fetch now now2 c t pk sk
               = (Inr (not_found_record t pk sk primary), [primary], c\<lparr>registry := reg1\<rparr>))
        \<and> (\<forall>os fb reg2.
              pick_shard_name_from_ring H oldr pk = Inr os \<and> os \<noteq> ps
              \<and> read_url reg1 now2 os = (Inr fb, reg2) \<longrightarrow>
                fst (snd (read_record H fetch now now2 c t pk sk)) = [primary, fb]
              \<and> (\<forall>code d. fetch fb = Reply code (Some d) \<and> code \<noteq> 404
                     \<and> \<not> (400 \<le> code \<and> code < 600) \<longrightarrow>
                    fst (read_record H fetch now now2 c t pk sk) = Inr (with_shard_url d fb))
              \<and> (\<forall>b. fetch fb = Reply 404 b \<longrightarrow>
                    fst (read_record H fetch now now2 c t pk sk)
                      = Inr (not_found_record t pk sk primary)))"
  proof (intro allI impI)
    fix oldr assume m: "migration_in_progress c \<and> old_ring c = Some oldr"
    have same: "pick_shard_name_from_ring H oldr pk = Inr ps \<longrightarrow>
             read_record H fetch now now2 c t pk sk
               = (Inr (not_found_record t pk sk primary), [primary], c\<lparr>registry := reg1\<rparr>)"
      using m by (simp add: eq read_fallback_def)
    have other: "fst (snd (read_record H fetch now now2 c t pk sk)) = [primary, fb]
              \<and> (\<forall>code d. fetch fb = Reply code (Some d) \<and> code \<noteq> 404
                     \<and> \<not> (400 \<le> code \<and> code < 600) \<longrightarrow>
                    fst (read_record H fetch now now2 c t pk sk) = Inr (with_shard_url d fb))
              \<and> (\<forall>b. fetch fb = Reply 404 b \<longrightarrow>
                    fst (read_record H fetch now now2 c t pk sk)
                      = Inr (not_found_record t pk sk primary))"
      if o: "pick_shard_name_from_ring H oldr pk = Inr os \<and> os \<noteq> ps
              \<and> read_url reg1 now2 os = (Inr fb, reg2)" for os fb reg2
    proof (cases "fetch fb")
      case RequestException
      with m o show ?thesis by (simp add: eq read_fallback_def)
    next
      case (Reply code2 body2)
      with m o show ?thesis by (auto simp: eq read_fallback_def forward_record_def)
    qed
    from same other show "(pick_shard_name_from_ring H oldr pk = Inr ps \<longrightarrow>
             read_record H fetch now now2 c t pk sk
               = (Inr (not_found_record t pk sk primary), [primary], c\<lparr>registry := reg1\<rparr>))
        \<and> (\<forall>os fb reg2.
              pick_shard_name_from_ring H oldr pk = Inr os \<and> os \<noteq> ps
              \<and> read_url reg1 now2 os = (Inr fb, reg2) \<longrightarrow>
                fst (snd (read_record H fetch now now2 c t pk sk)) = [primary, fb]
              \<and> (\<forall>code d. fetch fb = Reply code (Some d) \<and> code \<noteq> 404
                     \<and> \<not> (400 \<le> code \<and> code < 600) \<longrightarrow>
                    fst (read_record H fetch now now2 c t pk sk) = Inr (with_shard_url d fb))
              \<and> (\<forall>b. fetch fb = Reply 404 b \<longrightarrow>
                    fst (read_record H fetch now now2 c t pk sk)
                      = Inr (not_found_record t pk sk primary)))"
      by blast
  qed
  have c: "status_of (fst (read_record H fetch now now2 c t pk sk)) \<noteq> 404"
    by (rule read_record_not_404[OF assms(1)])
  from a b c show ?thesis by (intro conjI)
qed


text \<open>
  Not every read that finds no value is answered 200.  In the migration that the third shard
  \<^verbatim>\<open>s0\<close> started, the key \<^verbatim>\<open>u1\<close> now belongs to \<^verbatim>\<open>s0\<close> and belonged to \<^verbatim>\<open>s1\<close>
  before.  The replica of \<^verbatim>\<open>s0\<close> reports not-found, the old owner \<^verbatim>\<open>s1\<close> has no active
  replica, \<^verbatim>\<open>_read_url\<close> raises 503, and no second replica is queried.
\<close>

theorem read_record_fallback_counterexample:
  "tables_exists (tables waiting_migration_coordinator) ''users''
   \<and> pick_shard_name demo_hash waiting_migration_coordinator ''u1'' = Inr ''s0''
   \<and> fst (read_url (registry waiting_migration_coordinator) 101 ''s0'') = Inr ''http://r0''
   \<and> migration_in_progress waiting_migration_coordinator
   \<and> fst (read_record demo_hash (\<lambda>u. Reply 404 None) 101 101 waiting_migration_coordinator
          ''users'' ''u1'' ''2024'') = Inl (HTTPException 503)
   \<and> fst (snd (read_record demo_hash (\<lambda>u. Reply 404 None) 101 101 waiting_migration_coordinator
          ''users'' ''u1'' ''2024'')) = [''http://r0'']"
proof -
  let ?c = waiting_migration_coordinator
  let ?oldr = "\<lparr>replicas = 1, ring_tab = [(247, RingNode ''s1''), (248, RingNode ''s2'')],
                 sorted_keys = [247, 248]\<rparr>"
  have t: "tables_exists (tables ?c) ''users''"
    by (simp add: tables_exists_def waiting_migration_coordinator_def)
  have p: "pick_shard_name demo_hash ?c ''u1'' = Inr ''s0''"
    by (simp add: pick_shard_name_def pick_shard_name_from_ring_def ring_get_def demo_hash_def
        bisect_def bisect_from.simps waiting_migration_coordinator_def)
  have a: "active_replicas (registry ?c) 101 ''s0''
     = [\<lparr>ri_shard_name = ''s0'', ri_replica_url = ''http://r0'',
         ri_replica_id = None, ri_role = Leader, ri_last_seen_unix = 100\<rparr>]"
    by (simp add: active_replicas_def shard_replicas_def waiting_migration_coordinator_def)
  have ru: "fst (read_url (registry ?c) 101 ''s0'') = Inr ''http://r0''"
    by (simp add: read_url_def pick_read_replica_def a Let_def)
  obtain reg1 where ru': "read_url (registry ?c) 101 ''s0'' = (Inr ''http://r0'', reg1)"
    and reg1: "reg1 = snd (read_url (registry ?c) 101 ''s0'')"
    using ru by (cases "read_url (registry ?c) 101 ''s0''") simp
  have m: "migration_in_progress ?c" "old_ring ?c = Some ?oldr"
    by (simp_all add: waiting_migration_coordinator_def)
  have o: "pick_shard_name_from_ring demo_hash
      \<lparr>replicas = n, ring_tab = [(247, RingNode ''s1''), (248, RingNode ''s2'')],
        sorted_keys = [247, 248]\<rparr> ''u1'' = Inr ''s1''" for n
    by (simp add: pick_shard_name_from_ring_def ring_get_def demo_hash_def
        bisect_def bisect_from.simps)
  have a1: "active_replicas reg1 101 ''s1'' = []"
    by (simp add: reg1 read_url_def pick_read_replica_def a Let_def active_replicas_def
        shard_replicas_def waiting_migration_coordinator_def)
  have ru1: "fst (read_url reg1 101 ''s1'') = Inl (HTTPException 503)"
    by (simp add: read_url_def pick_read_replica_def a1 Let_def)
  obtain reg2 where ru2: "read_url reg1 101 ''s1'' = (Inl (HTTPException 503), reg2)"
    using ru1 by (cases "read_url reg1 101 ''s1''") simp
  have "read_record demo_hash (\<lambda>u. Reply 404 None) 101 101 ?c ''users'' ''u1'' ''2024''
     = (Inl (HTTPException 503), [''http://r0''], ?c\<lparr>registry := reg1, registry := reg2\<rparr>)"
    using m by (simp add: read_record_def t p ru' read_fallback_def o ru2)
  then have r: "fst (read_record demo_hash (\<lambda>u. Reply 404 None) 101 101 ?c
          ''users'' ''u1'' ''2024'') = Inl (HTTPException 503)"
    "fst (snd (read_record demo_hash (\<lambda>u. Reply 404 None) 101 101 ?c
          ''users'' ''u1'' ''2024'')) = [''http://r0'']"
    by simp_all
  from t p ru m(1) r show ?thesis by (intro conjI)
qed

text \<open>
  During the migration from \<^verbatim>\<open>s0\<close> to \<^verbatim>\<open>s1\<close> the new owner does not have the
  record yet and the old owner serves it.
\<close>

theorem read_record_fallback_witness:
  "tables_exists (tables migrating_coordinator) ''users''
   \<and> pick_shard_name demo_hash migrating_coordinator ''s0#0'' = Inr ''s1''
   \<and> fst (read_url (registry migrating_coordinator) 1 ''s1'') = Inr ''http://r1''
   \<and> pick_shard_name_from_ring demo_hash
         \<lparr>replicas = 1, ring_tab = [(246, RingNode ''s0'')], sorted_keys = [246]\<rparr> ''s0#0''
       = Inr ''s0''
   \<and> fst (read_record demo_hash
          (\<lambda>u. if u = ''http://r1'' then Reply 404 None else Reply 200 (Some demo_record))
          1 2 migrating_coordinator ''users'' ''s0#0'' ''2024'')
       = Inr (with_shard_url demo_record ''http://r0'')
   \<and> fst (snd (read_record demo_hash
          (\<lambda>u. if u = ''http://r1'' then Reply 404 None else Reply 200 (Some demo_record))
          1 2 migrating_coordinator ''users'' ''s0#0'' ''2024''))
       = [''http://r1'', ''http://r0'']"
proof -
  let ?fetch = "\<lambda>u. if u = ''http://r1'' then Reply 404 None else Reply 200 (Some demo_record)"
  let ?oldr = "\<lparr>replicas = 1, ring_tab = [(246, RingNode ''s0'')], sorted_keys = [246]\<rparr>"
  have h: "demo_hash ''s0#0'' = 246" by (simp add: demo_hash_def)
  have t: "tables_exists (tables migrating_coordinator) ''users''"
    by (simp add: tables_exists_def migrating_coordinator_def)
  have p: "pick_shard_name demo_hash migrating_coordinator ''s0#0'' = Inr ''s1''"
    by (simp add: pick_shard_name_def pick_shard_name_from_ring_def ring_get_def h
        bisect_def bisect_from.simps migrating_coordinator_def)
  have o: "pick_shard_name_from_ring demo_hash ?oldr ''s0#0'' = Inr ''s0''"
    by (simp add: pick_shard_name_from_ring_def ring_get_def h bisect_def bisect_from.simps)
  have a1: "active_replicas (registry migrating_coordinator) 1 ''s1''
     = [\<lparr>ri_shard_name = ''s1'', ri_replica_url = ''http://r1'',
          ri_replica_id = None, ri_role = Leader, ri_last_seen_unix = 0\<rparr>]"
    by (simp add: active_replicas_def shard_replicas_def migrating_coordinator_def)
  have ru: "fst (read_url (registry migrating_coordinator) 1 ''s1'') = Inr ''http://r1''"
    by (simp add: read_url_def pick_read_replica_def a1 Let_def)
  obtain reg1 where ru1: "read_url (registry migrating_coordinator) 1 ''s1'' = (Inr ''http://r1'', reg1)"
    and reg1: "reg1 = snd (read_url (registry migrating_coordinator) 1 ''s1'')"
    using ru by (cases "read_url (registry migrating_coordinator) 1 ''s1''") simp
  have a0: "active_replicas reg1 2 ''s0''
     = [\<lparr>ri_shard_name = ''s0'', ri_replica_url = ''http://r0'',
          ri_replica_id = None, ri_role = Leader, ri_last_seen_unix = 0\<rparr>]"
    by (simp add: reg1 read_url_def pick_read_replica_def a1 Let_def)
       (simp add: active_replicas_def shard_replicas_def migrating_coordinator_def)
  have "fst (read_url reg1 2 ''s0'') = Inr ''http://r0''"
    by (simp add: read_url_def pick_read_replica_def a0 Let_def)
  then obtain reg2 where ru2: "read_url reg1 2 ''s0'' = (Inr ''http://r0'', reg2)"
    by (cases "read_url reg1 2 ''s0''") simp
  have f1: "?fetch ''http://r1'' = Reply 404 None" by simp
  have f0: "?fetch ''http://r0'' = Reply 200 (Some demo_record)" by simp
  have m: "migration_in_progress migrating_coordinator \<and> old_ring migrating_coordinator = Some ?oldr"
    by (simp add: migrating_coordinator_def)
  note th = read_record_fallback[where fetch = ?fetch and ?now2.0 = 2 and sk = "''2024''",
      OF t p ru1 f1]
  from th have "\<forall>oldr. migration_in_progress migrating_coordinator
        \<and> old_ring migrating_coordinator = Some oldr \<longrightarrow>
          (pick_shard_name_from_ring demo_hash oldr ''s0#0'' = Inr ''s1'' \<longrightarrow>
             read_record demo_hash ?fetch 1 2 migrating_coordinator ''users'' ''s0#0'' ''2024''
               = (Inr (not_found_record ''users'' ''s0#0'' ''2024'' ''http://r1''), [''http://r1''],
                  migrating_coordinator\<lparr>registry := reg1\<rparr>))
        \<and> (\<forall>os fb reg2.
              pick_shard_name_from_ring demo_hash oldr ''s0#0'' = Inr os \<and> os \<noteq> ''s1''
              \<and> read_url reg1 2 os = (Inr fb, reg2) \<longrightarrow>
                fst (snd (read_record demo_hash ?fetch 1 2 migrating_coordinator
                  ''users'' ''s0#0'' ''2024'')) = [''http://r1'', fb]
              \<and> (\<forall>code d. ?fetch fb = Reply code (Some d) \<and> code \<noteq> 404
                     \<and> \<not> (400 \<le> code \<and> code < 600) \<longrightarrow>
                    fst (read_record demo_hash ?fetch 1 2 migrating_coordinator
                      ''users'' ''s0#0'' ''2024'') = Inr (with_shard_url d fb))
              \<and> (\<forall>b. ?fetch fb = Reply 404 b \<longrightarrow>
                    fst (read_record demo_hash ?fetch 1 2 migrating_coordinator
                      ''users'' ''s0#0'' ''2024'')
                      = Inr (not_found_record ''users'' ''s0#0'' ''2024'' ''http://r1'')))"
    by (elim conjE)
  with m o ru2 have r: "fst (snd (read_record demo_hash ?fetch 1 2 migrating_coordinator
                  ''users'' ''s0#0'' ''2024'')) = [''http://r1'', ''http://r0'']
              \<and> (\<forall>code d. ?fetch ''http://r0'' = Reply code (Some d) \<and> code \<noteq> 404
                     \<and> \<not> (400 \<le> code \<and> code < 600) \<longrightarrow>
                    fst (read_record demo_hash ?fetch 1 2 migrating_coordinator
                      ''users'' ''s0#0'' ''2024'') = Inr (with_shard_url d ''http://r0''))"
    by blast
  then have v: "fst (read_record demo_hash ?fetch 1 2 migrating_coordinator
                      ''users'' ''s0#0'' ''2024'') = Inr (with_shard_url demo_record ''http://r0'')"
    using f0 by simp
  from t p ru o v r show ?thesis by (intro conjI) simp_all
qed

end
